theory Spec2Isabelle
  imports Complex_Main "HOL-Library.AList" "HOL-Library.Sublist"
begin

section \<open>Python values the databuilder works on\<close>

text \<open>
  A row of a dataset is a Python dict from column names to text. It is modelled as an
  association list in insertion order: \<open>map_of\<close> reads a key, \<open>AList.update\<close> assigns
  one (in place when the key exists, appended otherwise, as Python does). Strings are
  lists of characters, one \<open>char\<close> for one character of the Python string; HOL's
  \<open>char\<close> has 256 values, so texts are taken over a one-byte alphabet, which holds
  the marker and both placeholders.
\<close>

type_synonym row = "(string \<times> string) list"

datatype error =
    KeyError string
  | AssertionError string
  | IndexError
  | ValueError
  | RuntimeError
  | NameError string

text \<open>\<open>row[k]\<close>: a missing key raises \<open>KeyError\<close>.\<close>

definition getitem :: "row \<Rightarrow> string \<Rightarrow> error + string" where
  "getitem r k = (case map_of r k of None \<Rightarrow> Inl (KeyError k) | Some v \<Rightarrow> Inr v)"

text \<open>\<open>s[-n:]\<close>: the last \<open>n\<close> characters, the whole string when it is shorter.\<close>

definition last_chars :: "nat \<Rightarrow> string \<Rightarrow> string" where
  "last_chars n s = drop (length s - n) s"

text \<open>
  \<open>s.replace(old, new)\<close>: scanning from the left, every occurrence of \<open>old\<close> that does
  not overlap an earlier one is replaced. For the empty pattern Python puts \<open>new\<close> before
  every character and at the end.
\<close>

function replace :: "string \<Rightarrow> string \<Rightarrow> string \<Rightarrow> string" where
  "replace old new s =
     (if old = [] then new @ concat (map (\<lambda>c. c # new) s)
      else if s = [] then []
      else if prefix old s then new @ replace old new (drop (length old) s)
      else hd s # replace old new (tl s))"
  by pat_completeness auto
termination
  by (relation "measure (\<lambda>(old, new, s). length s)") auto

declare replace.simps [simp del]

section \<open>The databuilder\<close>

record databuilder_arguments =
  highlight_token :: string
  separation_token :: string
  tokenizer_name_or_path :: string
  global_output_dir :: string
  train_csv_path :: string
  valid_csv_path :: string
  train_file_path :: string
  valid_file_path :: string
  source_column :: string
  target_column :: string
  config_path :: string
  source_max_length :: nat
  target_max_length :: nat

text \<open>\<open>DEFAULT_ARGS\<close> of databuilder.py.\<close>

definition DEFAULT_ARGS :: databuilder_arguments where
  "DEFAULT_ARGS = \<lparr>
     highlight_token = ''<hl>'',
     separation_token = ''<sep>'',
     tokenizer_name_or_path = ''google/mt5-small'',
     global_output_dir = ''model'',
     train_csv_path = ''data/train.tsv'',
     valid_csv_path = ''data/valid.tsv'',
     train_file_path = ''data/train.pt'',
     valid_file_path = ''data/valid.pt'',
     source_column = ''source_text'',
     target_column = ''target_text'',
     config_path = ''model/params.json'',
     source_max_length = 512,
     target_max_length = 30 \<rparr>"

subsection \<open>Stage 1: end-of-sequence marker\<close>

text \<open>
  \<open>[s + " </s>", s][s[-4:] == '</s>']\<close>: the list is indexed by the comparison, so the
  second element is taken when the last four characters are the marker.
\<close>

definition eos_field :: "string \<Rightarrow> string" where
  "eos_field s = (if last_chars 4 s = ''</s>'' then s else s @ '' </s>'')"

text \<open>
  \<open>Databuilder._add_eos\<close>: the source column is assigned first, the target column is
  read from the row after that assignment.
\<close>

definition add_eos :: "databuilder_arguments \<Rightarrow> row \<Rightarrow> error + row" where
  "add_eos args r =
     (case getitem r (source_column args) of
        Inl e \<Rightarrow> Inl e
      | Inr s \<Rightarrow>
          (let r1 = AList.update (source_column args) (eos_field s) r in
           case getitem r1 (target_column args) of
             Inl e \<Rightarrow> Inl e
           | Inr t \<Rightarrow> Inr (AList.update (target_column args) (eos_field t) r1)))"

subsection \<open>Stage 2: special tokens\<close>

text \<open>\<open>Databuilder._replace_special_tokens\<close>.\<close>

definition replace_special_tokens :: "databuilder_arguments \<Rightarrow> row \<Rightarrow> error + row" where
  "replace_special_tokens args r =
     (case getitem r (source_column args) of
        Inl e \<Rightarrow> Inl e
      | Inr s \<Rightarrow>
          (let r1 = AList.update (source_column args)
                      (replace ''{hl_token}'' (highlight_token args) s) r in
           case getitem r1 (target_column args) of
             Inl e \<Rightarrow> Inl e
           | Inr t \<Rightarrow>
               Inr (AList.update (target_column args)
                      (replace ''{sep_token}'' (separation_token args) t) r1)))"

subsection \<open>Stage 3: batched tokenization\<close>

text \<open>
  The tokenizer belongs to the transformers library. What the databuilder needs of it is
  a parameter: the subword ids of a text under a vocabulary extended by the added
  tokens, and the pad id.
\<close>

record tokenizer =
  added_tokens :: "string list"
  text_ids :: "string list \<Rightarrow> string \<Rightarrow> nat list"
  pad_token_id :: nat

text \<open>\<open>tokenizer.add_tokens\<close>: tokens that are not yet in the added vocabulary join it.\<close>

definition add_tokens :: "tokenizer \<Rightarrow> string list \<Rightarrow> tokenizer" where
  "add_tokens tok new =
     tok\<lparr>added_tokens := added_tokens tok @ filter (\<lambda>t. t \<notin> set (added_tokens tok)) (remdups new)\<rparr>"

record batch_encoding =
  input_ids :: "nat list list"
  encoding_mask :: "nat list list"

text \<open>
  Modelled from the spec: \<open>batch_encode_plus\<close> of the external tokenizer, called with
  \<open>max_length\<close>, \<open>padding='max_length'\<close> and \<open>truncation=True\<close>. Section 4.1, stage 3:
  each call maps text to subword ids, pads every sequence to the max length with a pad
  id, truncates sequences exceeding the max length from the end, and produces an
  attention mask (1 for real tokens, 0 for padding).
\<close>

definition pad_truncate :: "nat \<Rightarrow> nat \<Rightarrow> nat list \<Rightarrow> nat list" where
  "pad_truncate max_length pad ids = take max_length ids @ replicate (max_length - length ids) pad"

definition mask_of :: "nat \<Rightarrow> nat list \<Rightarrow> nat list" where
  "mask_of max_length ids =
     replicate (length (take max_length ids)) 1 @ replicate (max_length - length ids) 0"

definition batch_encode_plus :: "tokenizer \<Rightarrow> string list \<Rightarrow> nat \<Rightarrow> batch_encoding" where
  "batch_encode_plus tok texts max_length =
     \<lparr> input_ids = map (\<lambda>s. pad_truncate max_length (pad_token_id tok)
                                 (text_ids tok (added_tokens tok) s)) texts,
       encoding_mask = map (\<lambda>s. mask_of max_length (text_ids tok (added_tokens tok) s)) texts \<rparr>"

text \<open>
  \<open>batch[k]\<close> for a batch of rows: the column as a list, in row order; \<open>KeyError\<close>
  when the column is missing.
\<close>

fun column :: "row list \<Rightarrow> string \<Rightarrow> error + string list" where
  "column [] k = Inr []"
| "column (r # rs) k =
     (case getitem r k of
        Inl e \<Rightarrow> Inl e
      | Inr v \<Rightarrow> (case column rs k of Inl e \<Rightarrow> Inl e | Inr vs \<Rightarrow> Inr (v # vs)))"

record encodings =
  source_ids :: "nat list list"
  target_ids :: "nat list list"
  attention_mask :: "nat list list"

text \<open>\<open>Databuilder._to_features\<close>.\<close>

definition to_features :: "databuilder_arguments \<Rightarrow> tokenizer \<Rightarrow> row list \<Rightarrow> error + encodings" where
  "to_features args tok batch =
     (case column batch (source_column args) of
        Inl e \<Rightarrow> Inl e
      | Inr sources \<Rightarrow>
          (let encoded_source = batch_encode_plus tok sources (source_max_length args) in
           case column batch (target_column args) of
             Inl e \<Rightarrow> Inl e
           | Inr targets \<Rightarrow>
               (let encoded_target = batch_encode_plus tok targets (target_max_length args) in
                Inr \<lparr> source_ids = input_ids encoded_source,
                      target_ids = input_ids encoded_target,
                      attention_mask = encoding_mask encoded_source \<rparr>)))"

subsection \<open>The dataset and its map\<close>

text \<open>
  Modelled from the spec: \<open>Dataset.map\<close> of the external nlp library. Section 6: a
  dataset abstraction supporting map-transform-over-rows (sequential, batched); section
  4.1: each stage is total, no row is skipped or reordered, and rows are grouped into
  batches. \<open>map(f)\<close> applies \<open>f\<close> to the rows in order and stops at the first
  exception. With \<open>batched=True\<close> it cuts the rows into consecutive batches of
  \<open>batch_size\<close> rows (1000 in the library when the caller passes none, as here; the
  whole dataset as one batch when the size is 0), applies \<open>f\<close> to each batch in order
  and appends the columns it returns.
\<close>

fun map_rows :: "(row \<Rightarrow> error + row) \<Rightarrow> row list \<Rightarrow> error + row list" where
  "map_rows f [] = Inr []"
| "map_rows f (r # rs) =
     (case f r of
        Inl e \<Rightarrow> Inl e
      | Inr r' \<Rightarrow> (case map_rows f rs of Inl e \<Rightarrow> Inl e | Inr rs' \<Rightarrow> Inr (r' # rs')))"

function batches :: "nat \<Rightarrow> 'a list \<Rightarrow> 'a list list" where
  "batches n xs =
     (if xs = [] then []
      else if n = 0 then [xs]
      else take n xs # batches n (drop n xs))"
  by pat_completeness auto
termination
  by (relation "measure (\<lambda>(n, xs). length xs)") auto

declare batches.simps [simp del]

fun map_batched :: "(row list \<Rightarrow> error + encodings) \<Rightarrow> row list list \<Rightarrow> error + encodings" where
  "map_batched f [] = Inr \<lparr> source_ids = [], target_ids = [], attention_mask = [] \<rparr>"
| "map_batched f (b # bs) =
     (case f b of
        Inl e \<Rightarrow> Inl e
      | Inr enc \<Rightarrow>
          (case map_batched f bs of
             Inl e \<Rightarrow> Inl e
           | Inr encs \<Rightarrow>
               Inr \<lparr> source_ids = source_ids enc @ source_ids encs,
                     target_ids = target_ids enc @ target_ids encs,
                     attention_mask = attention_mask enc @ attention_mask encs \<rparr>))"

text \<open>
  An encoded dataset: the text rows it was made from, the three feature columns, and the
  columns selected by \<open>set_format\<close> (\<open>None\<close> until it is called).
\<close>

record dataset = encodings +
  text_rows :: "row list"
  format_columns :: "string list option"

text \<open>\<open>Databuilder.preprocess\<close>: the three maps, in this order.\<close>

definition preprocess :: "databuilder_arguments \<Rightarrow> tokenizer \<Rightarrow> row list \<Rightarrow> error + dataset" where
  "preprocess args tok rows =
     (case map_rows (add_eos args) rows of
        Inl e \<Rightarrow> Inl e
      | Inr rows1 \<Rightarrow>
          (case map_rows (replace_special_tokens args) rows1 of
             Inl e \<Rightarrow> Inl e
           | Inr rows2 \<Rightarrow>
               (case map_batched (to_features args tok) (batches 1000 rows2) of
                  Inl e \<Rightarrow> Inl e
                | Inr enc \<Rightarrow>
                    Inr \<lparr> source_ids = source_ids enc,
                          target_ids = target_ids enc,
                          attention_mask = attention_mask enc,
                          text_rows = rows2,
                          format_columns = None \<rparr>)))"

definition set_format :: "string list \<Rightarrow> dataset \<Rightarrow> dataset" where
  "set_format cols ds = ds\<lparr>format_columns := Some cols\<rparr>"

subsection \<open>The main procedure\<close>

text \<open>
  A dataframe as \<open>pd.read_csv(...).astype(str)\<close> returns it: the column names and, for
  every line of the file, one cell per column. \<open>Dataset.from_pandas\<close> turns each line
  into a row.
\<close>

record dataframe =
  columns :: "string list"
  cells :: "string list list"

definition from_pandas :: "dataframe \<Rightarrow> row list" where
  "from_pandas df = map (zip (columns df)) (cells df)"

text \<open>
  \<open>main\<close> of databuilder.py, from the point where the arguments are parsed and both
  files are read: the three assertions, the two datasets, the tokenizer with its added
  tokens, the preprocessing, the format and the two \<open>torch.save\<close> calls. The result is
  the content of the dataset files written, by path; logging and the saving of the
  tokenizer are left out.
\<close>

definition main ::
  "databuilder_arguments \<Rightarrow> dataframe \<Rightarrow> dataframe \<Rightarrow> tokenizer \<Rightarrow> error + (string \<times> dataset) list" where
  "main db_args train_df valid_df pretrained =
     (if \<not> (source_column db_args \<in> set (columns train_df) \<and>
             target_column db_args \<in> set (columns train_df))
      then Inl (AssertionError (source_column db_args @ '' or '' @ target_column db_args @
                  '' column missing in '' @ train_csv_path db_args @ ''.''))
      else if \<not> (source_column db_args \<in> set (columns valid_df) \<and>
                  target_column db_args \<in> set (columns valid_df))
      then Inl (AssertionError (source_column db_args @ '' or '' @ target_column db_args @
                  '' column missing in '' @ valid_csv_path db_args @ ''.''))
      else if \<not> (last_chars 3 (train_file_path db_args) = ''.pt'' \<and>
                  last_chars 3 (valid_file_path db_args) = ''.pt'')
      then Inl (AssertionError ''train_file_path and valid_file_path must be .pt files.'')
      else
        (let train_dataset = from_pandas train_df;
             valid_dataset = from_pandas train_df;
             tokenizer = add_tokens pretrained [highlight_token db_args, separation_token db_args]
         in case preprocess db_args tokenizer train_dataset of
              Inl e \<Rightarrow> Inl e
            | Inr train_dataset \<Rightarrow>
                (case preprocess db_args tokenizer valid_dataset of
                   Inl e \<Rightarrow> Inl e
                 | Inr valid_dataset \<Rightarrow>
                     (let cols = [''source_ids'', ''target_ids'', ''attention_mask''];
                          train_dataset = set_format cols train_dataset;
                          valid_dataset = set_format cols valid_dataset
                      in Inr (AList.update (valid_file_path db_args) valid_dataset
                               (AList.update (train_file_path db_args) train_dataset []))))))"

text \<open>Both configured columns are keys of the row.\<close>

definition has_columns :: "databuilder_arguments \<Rightarrow> row \<Rightarrow> bool" where
  "has_columns args r \<longleftrightarrow>
     source_column args \<in> set (map fst r) \<and> target_column args \<in> set (map fst r)"

section \<open>The trainer\<close>

text \<open>
  The values of a batch: tensors (with the device they live on) and anything else. The
  batch is the dict the training loop passes to the step; it is an association list in
  insertion order, and an assignment \<open>inputs[k] = v\<close> is \<open>AList.update\<close>.
\<close>

datatype pyval = Tensor string "int list" | PyBool bool | PyInt int | PyStr string | PyNone

type_synonym inputs = "(string \<times> pyval) list"

fun is_tensor :: "pyval \<Rightarrow> bool" where
  "is_tensor (Tensor d xs) = True"
| "is_tensor v = False"

text \<open>\<open>v.to(device)\<close>: the same data on the given device.\<close>

fun to_device :: "pyval \<Rightarrow> string \<Rightarrow> pyval" where
  "to_device (Tensor d xs) dev = Tensor dev xs"
| "to_device v dev = v"

text \<open>
  A loss tensor holds one value per replica, a single value when it is a scalar. Its
  arithmetic is exact: the rounding of the float operations is not modelled.
\<close>

datatype loss = Loss real "real list"

fun elements :: "loss \<Rightarrow> real list" where
  "elements (Loss x xs) = x # xs"

definition mean :: "loss \<Rightarrow> loss" where
  "mean l = Loss (sum_list (elements l) / real (length (elements l))) []"

fun divide_loss :: "loss \<Rightarrow> int \<Rightarrow> loss" where
  "divide_loss (Loss x xs) k = Loss (x / real_of_int k) (map (\<lambda>y. y / real_of_int k) xs)"

text \<open>\<open>loss.item()\<close>: the number held by a tensor of one element, an error otherwise.\<close>

fun item :: "loss \<Rightarrow> error + real" where
  "item (Loss x []) = Inr x"
| "item (Loss x (y # ys)) = Inl ValueError"

record training_arguments =
  device :: string
  n_gpu :: int
  gradient_accumulation_steps :: int
  fp16 :: bool

record trainer =
  args :: training_arguments
  label_smoothing :: real

text \<open>
  The model is a parameter: whether it is wrapped in \<open>nn.DataParallel\<close>, and its forward
  pass, which takes the keyword inputs and returns the output tuple or raises.
\<close>

record module =
  data_parallel :: bool
  forward :: "inputs \<Rightarrow> error + loss list"

text \<open>
  What a training step can change or read, besides its result: the dict object that the
  caller passed as \<open>inputs\<close>, the training flag of the model, the tensors \<open>backward\<close> has
  been called on (the latest last), how often the optimizer has stepped and the
  gradients have been zeroed, whether apex is installed and the loss scale of its
  \<open>amp\<close>.
\<close>

record world =
  batch :: inputs
  training :: bool
  backward_calls :: "loss list"
  optimizer_steps :: nat
  zero_grad_calls :: nat
  apex_available :: bool
  loss_scale :: real

text \<open>
  \<open>loss.backward()\<close>: torch creates the gradient implicitly only for a tensor of one
  element and raises otherwise.
\<close>

fun backward :: "loss \<Rightarrow> world \<Rightarrow> error + world" where
  "backward (Loss x []) w = Inr (w\<lparr>backward_calls := backward_calls w @ [Loss x []]\<rparr>)"
| "backward (Loss x (y # ys)) w = Inl RuntimeError"

text \<open>
  Modelled from the spec: \<open>amp.scale_loss\<close> of the external apex library. Glossary,
  precision scaling: the loss is multiplied (here by the current loss scale) before
  backward.
\<close>

fun scale_loss :: "loss \<Rightarrow> real \<Rightarrow> loss" where
  "scale_loss (Loss x xs) c = Loss (x * c) (map (\<lambda>y. y * c) xs)"

text \<open>
  The loop \<open>for k, v in inputs.items(): if isinstance(v, torch.Tensor): inputs[k] =
  v.to(device)\<close>, over the items the dict has when the loop starts.
\<close>

definition send_to_device :: "string \<Rightarrow> inputs \<Rightarrow> inputs" where
  "send_to_device dev ins =
     fold (\<lambda>(k, v) d. if is_tensor v then AList.update k (to_device v dev) d else d) ins ins"

text \<open>
  \<open>Trainer._training_step\<close>, in the order of the source. First the lines under
  "Sending keys to device" and "Forcing return tuple", which assign into the caller's
  dict.
\<close>

definition prepare_inputs :: "trainer \<Rightarrow> module \<Rightarrow> inputs \<Rightarrow> inputs" where
  "prepare_inputs self model ins =
     (let inputs1 = send_to_device (device (args self)) ins
      in if data_parallel model
         then AList.update ''return_tuple'' (PyBool True) inputs1 else inputs1)"

text \<open>The lines under "Calculating loss".\<close>

definition adjust_loss :: "trainer \<Rightarrow> loss \<Rightarrow> loss" where
  "adjust_loss self loss0 =
     (let loss1 = (if n_gpu (args self) > 1 then mean loss0 else loss0)
      in if gradient_accumulation_steps (args self) > 1
         then divide_loss loss1 (gradient_accumulation_steps (args self)) else loss1)"

text \<open>
  The lines under "Taking fp16 in account". The name \<open>amp\<close> is bound only when apex is
  installed, so the fp16 branch raises \<open>NameError\<close> without it.
\<close>

definition backward_pass :: "trainer \<Rightarrow> loss \<Rightarrow> world \<Rightarrow> error + world" where
  "backward_pass self l w =
     (if fp16 (args self)
      then (if \<not> apex_available w then Inl (NameError ''amp'')
            else backward (scale_loss l (loss_scale w)) w)
      else backward l w)"

text \<open>
  The whole step: \<open>model.train()\<close>, the inputs, the forward pass with the dict as
  keyword inputs, \<open>outputs[0]\<close>, the adjustments, the backward pass, \<open>loss.item()\<close>.
  The result is what the step returns or raises, and the world it leaves.
\<close>

definition training_step :: "trainer \<Rightarrow> module \<Rightarrow> world \<Rightarrow> (error + real) \<times> world" where
  "training_step self model w =
     (let w1 = w\<lparr>training := True\<rparr>;
          w2 = w1\<lparr>batch := prepare_inputs self model (batch w1)\<rparr>
      in case forward model (batch w2) of
           Inl e \<Rightarrow> (Inl e, w2)
         | Inr [] \<Rightarrow> (Inl IndexError, w2)
         | Inr (loss0 # rest) \<Rightarrow>
             (let l = adjust_loss self loss0
              in case backward_pass self l w2 of
                   Inl e \<Rightarrow> (Inl e, w2)
                 | Inr w3 \<Rightarrow>
                     (case item l of
                        Inl e \<Rightarrow> (Inl e, w3)
                      | Inr x \<Rightarrow> (Inr x, w3))))"

section \<open>Auxiliary notions for the statements\<close>

text \<open>\<open>sep.join(ps)\<close>: the pieces with the separator between neighbours.\<close>

fun join :: "string \<Rightarrow> string list \<Rightarrow> string" where
  "join sep [] = []"
| "join sep [p] = p"
| "join sep (p # q # ps) = p @ sep @ join sep (q # ps)"

text \<open>
  An encoding is aligned with a list of rows when it has one entry per row and its entry
  \<open>i\<close> is what \<open>_to_features\<close> returns for row \<open>i\<close> alone.
\<close>

definition aligned :: "databuilder_arguments \<Rightarrow> tokenizer \<Rightarrow> row list \<Rightarrow> encodings \<Rightarrow> bool" where
  "aligned db tok rows enc \<longleftrightarrow>
     length (source_ids enc) = length rows \<and>
     length (target_ids enc) = length rows \<and>
     length (attention_mask enc) = length rows \<and>
     (\<forall>i<length rows.
        to_features db tok [rows ! i] =
          Inr \<lparr> source_ids = [source_ids enc ! i],
                target_ids = [target_ids enc ! i],
                attention_mask = [attention_mask enc ! i] \<rparr>)"

text \<open>A tokenizer for the examples: one id per character (its code), pad id 0.\<close>

definition char_tokenizer :: tokenizer where
  "char_tokenizer =
     \<lparr> added_tokens = [], text_ids = (\<lambda>added s. map of_char s), pad_token_id = 0 \<rparr>"

text \<open>
  Values for the examples of the trainer: a batch of two tensors on the cpu and one
  string, a world that holds it, a trainer with given \<open>n_gpu\<close>, accumulation steps,
  \<open>fp16\<close> and label smoothing, and a model whose forward pass returns a given loss.
\<close>

definition example_batch :: inputs where
  "example_batch =
     [(''input_ids'', Tensor ''cpu'' [5, 6]), (''labels'', Tensor ''cpu'' [7]), (''note'', PyStr ''x'')]"

definition example_world :: world where
  "example_world =
     \<lparr> batch = example_batch, training = False, backward_calls = [], optimizer_steps = 0,
       zero_grad_calls = 0, apex_available = True, loss_scale = 128 \<rparr>"

definition example_trainer :: "int \<Rightarrow> int \<Rightarrow> bool \<Rightarrow> real \<Rightarrow> trainer" where
  "example_trainer n g f r =
     \<lparr> args = \<lparr> device = ''cuda:0'', n_gpu = n, gradient_accumulation_steps = g, fp16 = f \<rparr>,
       label_smoothing = r \<rparr>"

definition example_model :: "bool \<Rightarrow> loss \<Rightarrow> module" where
  "example_model dp l = \<lparr> data_parallel = dp, forward = (\<lambda>ins. Inr [l]) \<rparr>"

section \<open>End-of-sequence normalization\<close>

lemma last_chars_append_eos: "last_chars 4 (s @ '' </s>'') = ''</s>''"
  by (simp add: last_chars_def)

lemma eos_field_idem: "eos_field (eos_field s) = eos_field s"
  by (simp add: eos_field_def last_chars_append_eos)

lemma last_chars_short: "length s < 4 \<Longrightarrow> last_chars 4 s = s"
  by (simp add: last_chars_def)

lemma eos_field_short: "length s < 4 \<Longrightarrow> eos_field s = s @ '' </s>''"
  by (auto simp add: eos_field_def last_chars_short)

lemma getitem_update_same: "getitem (AList.update k v r) k = Inr v"
  by (simp add: getitem_def update_conv')

lemma getitem_update_other: "k' \<noteq> k \<Longrightarrow> getitem (AList.update k v r) k' = getitem r k'"
  by (simp add: getitem_def update_conv')

lemma getitem_update:
  "getitem (AList.update k v r) k' = (if k' = k then Inr v else getitem r k')"
  by (simp add: getitem_update_same getitem_update_other)

lemma last_chars_suffix4: "last_chars 4 s = ''</s>'' \<longleftrightarrow> suffix ''</s>'' s"
proof
  assume "last_chars 4 s = ''</s>''"
  then have "s = take (length s - 4) s @ ''</s>''"
    unfolding last_chars_def by (metis append_take_drop_id)
  then show "suffix ''</s>'' s" unfolding suffix_def by blast
next
  assume "suffix ''</s>'' s"
  then obtain p where "s = p @ ''</s>''" unfolding suffix_def by blast
  then show "last_chars 4 s = ''</s>''" by (simp add: last_chars_def)
qed

lemma eos_field_suffix: "eos_field s = (if suffix ''</s>'' s then s else s @ '' </s>'')"
  by (simp add: eos_field_def last_chars_suffix4)

lemma add_eos_result:
  assumes "getitem r (source_column db) = Inr s" and "getitem r (target_column db) = Inr t"
  shows "add_eos db r =
           Inr (AList.update (target_column db) (eos_field t)
                 (AList.update (source_column db) (eos_field s) r))"
proof (cases "target_column db = source_column db")
  case True
  with assms have "t = s" by simp
  with True assms show ?thesis
    by (simp add: add_eos_def getitem_update_same eos_field_idem)
next
  case False
  with assms show ?thesis
    by (simp add: add_eos_def getitem_update_other)
qed

text \<open>
  Claim C5. On a row that has both columns, \<open>_add_eos\<close> returns a row in which the
  source and the target field are unchanged when they end with the four characters
  \<open></s>\<close> and have one space and the marker appended otherwise. A field shorter than
  four characters is compared whole (its last four characters are the field itself) and
  always gets the marker. The other fields and the order of the keys are unchanged.
\<close>

theorem add_eos_fields:
  assumes "getitem r (source_column db) = Inr s" and "getitem r (target_column db) = Inr t"
  shows "\<exists>r'. add_eos db r = Inr r' \<and>
           getitem r' (source_column db) = Inr (if suffix ''</s>'' s then s else s @ '' </s>'') \<and>
           getitem r' (target_column db) = Inr (if suffix ''</s>'' t then t else t @ '' </s>'') \<and>
           (length s < 4 \<longrightarrow> last_chars 4 s = s \<and> getitem r' (source_column db) = Inr (s @ '' </s>'')) \<and>
           (length t < 4 \<longrightarrow> last_chars 4 t = t \<and> getitem r' (target_column db) = Inr (t @ '' </s>'')) \<and>
           (\<forall>k. k \<noteq> source_column db \<and> k \<noteq> target_column db \<longrightarrow> getitem r' k = getitem r k) \<and>
           map fst r' = map fst r"
proof -
  define r' where "r' = AList.update (target_column db) (eos_field t)
               (AList.update (source_column db) (eos_field s) r)"
  have res: "add_eos db r = Inr r'"
    unfolding r'_def using assms by (rule add_eos_result)
  have same: "target_column db = source_column db \<Longrightarrow> t = s"
    using assms by simp
  have src: "getitem r' (source_column db) = Inr (eos_field s)"
    unfolding r'_def using same by (auto simp add: getitem_update)
  have tgt: "getitem r' (target_column db) = Inr (eos_field t)"
    unfolding r'_def by (simp add: getitem_update_same)
  have other: "\<forall>k. k \<noteq> source_column db \<and> k \<noteq> target_column db \<longrightarrow> getitem r' k = getitem r k"
    unfolding r'_def by (simp add: getitem_update)
  have ks: "source_column db \<in> fst ` set r" "target_column db \<in> fst ` set r"
    using assms by (auto simp add: getitem_def dest: map_of_SomeD intro: rev_image_eqI split: option.splits)
  have keys: "map fst r' = map fst r"
    unfolding r'_def using ks by (simp add: update_keys)
  have "getitem r' (source_column db) = Inr (if suffix ''</s>'' s then s else s @ '' </s>'')"
    using src by (simp add: eos_field_suffix)
  moreover have "getitem r' (target_column db) = Inr (if suffix ''</s>'' t then t else t @ '' </s>'')"
    using tgt by (simp add: eos_field_suffix)
  moreover have "length s < 4 \<longrightarrow> last_chars 4 s = s \<and> getitem r' (source_column db) = Inr (s @ '' </s>'')"
    using src by (simp add: eos_field_short last_chars_short)
  moreover have "length t < 4 \<longrightarrow> last_chars 4 t = t \<and> getitem r' (target_column db) = Inr (t @ '' </s>'')"
    using tgt by (simp add: eos_field_short last_chars_short)
  ultimately show ?thesis
    using res other keys by blast
qed

theorem add_eos_fields_witness:
  "getitem [(''source_text'', ''ab''), (''id'', ''7''), (''target_text'', ''cats </s>'')]
     (source_column DEFAULT_ARGS) = Inr ''ab'' \<and>
   getitem [(''source_text'', ''ab''), (''id'', ''7''), (''target_text'', ''cats </s>'')]
     (target_column DEFAULT_ARGS) = Inr ''cats </s>'' \<and>
   add_eos DEFAULT_ARGS [(''source_text'', ''ab''), (''id'', ''7''), (''target_text'', ''cats </s>'')] =
     Inr [(''source_text'', ''ab </s>''), (''id'', ''7''), (''target_text'', ''cats </s>'')]"
  using add_eos_fields [of "[(''source_text'', ''ab''), (''id'', ''7''), (''target_text'', ''cats </s>'')]"
      DEFAULT_ARGS "''ab''" "''cats </s>''"]
  by (simp add: DEFAULT_ARGS_def getitem_def add_eos_def eos_field_def last_chars_def)






section \<open>Special-token substitution\<close>

lemma replace_Nil: "old \<noteq> [] \<Longrightarrow> replace old new [] = []"
  by (subst replace.simps) simp

lemma replace_prefix: "old \<noteq> [] \<Longrightarrow> replace old new (old @ t) = new @ replace old new t"
  by (subst replace.simps) simp

lemma replace_no_prefix:
  "old \<noteq> [] \<Longrightarrow> \<not> prefix old (x # s) \<Longrightarrow> replace old new (x # s) = x # replace old new s"
  by (subst replace.simps) simp

lemma replace_absent: "old \<noteq> [] \<Longrightarrow> \<not> sublist old s \<Longrightarrow> replace old new s = s"
proof (induction s)
  case Nil
  from Nil(1) show ?case by (rule replace_Nil)
next
  case (Cons x s)
  from Cons.prems have np: "\<not> prefix old (x # s)"
    using prefix_imp_sublist by blast
  from Cons.prems have ns: "\<not> sublist old s"
    by (auto simp add: sublist_Cons_right)
  have ih: "replace old new s = s"
    using Cons.IH Cons.prems(1) ns by blast
  have "replace old new (x # s) = x # replace old new s"
    using Cons.prems(1) np by (rule replace_no_prefix)
  then show ?case by (simp only: ih)
qed

text \<open>A pattern whose first character does not occur again cannot overlap itself.\<close>

lemma no_straddle:
  assumes c: "c \<notin> set rest" and ns: "\<not> sublist (c # rest) (x # p)"
  shows "\<not> prefix (c # rest) ((x # p) @ (c # rest) @ t)"
proof
  assume "prefix (c # rest) ((x # p) @ (c # rest) @ t)"
  then have "prefix (c # rest) (x # p) \<or>
             (\<exists>us. c # rest = (x # p) @ us \<and> prefix us ((c # rest) @ t))"
    by (simp only: prefix_append)
  then show False
  proof
    assume "prefix (c # rest) (x # p)"
    with ns show False using prefix_imp_sublist by blast
  next
    assume "\<exists>us. c # rest = (x # p) @ us \<and> prefix us ((c # rest) @ t)"
    then obtain us where us: "c # rest = (x # p) @ us" and pre: "prefix us ((c # rest) @ t)"
      by blast
    show False
    proof (cases us)
      case Nil
      with us have "c # rest = x # p" by simp
      with ns show False by simp
    next
      case (Cons u us')
      with pre have "u = c" by simp
      with us Cons have "rest = p @ c # us'" by simp
      with c show False by simp
    qed
  qed
qed

lemma replace_piece:
  assumes c: "c \<notin> set rest" and ns: "\<not> sublist (c # rest) p"
  shows "replace (c # rest) new (p @ (c # rest) @ t) = p @ new @ replace (c # rest) new t"
  using ns
proof (induction p)
  case Nil
  show ?case using replace_prefix [of "c # rest" new t] by simp
next
  case (Cons x p)
  from Cons.prems have "\<not> sublist (c # rest) p"
    by (auto simp add: sublist_Cons_right)
  then have ih: "replace (c # rest) new (p @ (c # rest) @ t) = p @ new @ replace (c # rest) new t"
    by (rule Cons.IH)
  have "\<not> prefix (c # rest) (x # (p @ (c # rest) @ t))"
    using no_straddle [OF c Cons.prems, of t] by simp
  then have "replace (c # rest) new (x # (p @ (c # rest) @ t)) =
               x # replace (c # rest) new (p @ (c # rest) @ t)"
    by (simp add: replace_no_prefix)
  with ih show ?case by simp
qed

lemma replace_join:
  assumes c: "c \<notin> set rest" and ps: "\<forall>p\<in>set ps. \<not> sublist (c # rest) p"
  shows "replace (c # rest) new (join (c # rest) ps) = join new ps"
  using ps
proof (induction ps rule: induct_list012)
  case 1
  show ?case by (simp add: replace_Nil)
next
  case (2 p)
  then show ?case by (simp add: replace_absent)
next
  case (3 p q ps)
  then have "replace (c # rest) new (join (c # rest) (q # ps)) = join new (q # ps)"
    by simp
  moreover from 3 have "\<not> sublist (c # rest) p" by simp
  ultimately show ?case using replace_piece [OF c] by simp
qed

lemma join_decomposition:
  assumes "old \<noteq> []"
  shows "\<exists>ps. ps \<noteq> [] \<and> s = join old ps \<and> (\<forall>p\<in>set ps. \<not> sublist old p)"
proof (induction s rule: length_induct)
  case (1 s)
  show ?case
  proof (cases "prefix old s")
    case True
    then obtain b where b: "s = old @ b" by (auto simp add: prefix_def)
    with assms have "length b < length s" by simp
    with 1 obtain qs where qs: "qs \<noteq> []" "b = join old qs" "\<forall>p\<in>set qs. \<not> sublist old p"
      by blast
    from qs(1) obtain q qs' where "qs = q # qs'" by (cases qs) auto
    with b qs assms have "[] # qs \<noteq> [] \<and> s = join old ([] # qs) \<and> (\<forall>p\<in>set ([] # qs). \<not> sublist old p)"
      by auto
    then show ?thesis by blast
  next
    case False
    show ?thesis
    proof (cases s)
      case Nil
      with assms have "[[]] \<noteq> [] \<and> s = join old [[]] \<and> (\<forall>p\<in>set [[]]. \<not> sublist old p)"
        by auto
      then show ?thesis by blast
    next
      case (Cons x s')
      then have "length s' < length s" by simp
      with 1 obtain qs where qs: "qs \<noteq> []" "s' = join old qs" "\<forall>p\<in>set qs. \<not> sublist old p"
        by blast
      from qs(1) obtain q qs' where q: "qs = q # qs'" by (cases qs) auto
      have pre: "prefix (x # q) s"
        using Cons qs(2) q by (cases qs') auto
      have "\<not> sublist old (x # q)"
      proof
        assume "sublist old (x # q)"
        then have "prefix old (x # q) \<or> sublist old q"
          using assms by (cases old) (auto simp add: sublist_Cons_right)
        with qs(3) q have "prefix old (x # q)" by auto
        with pre have "prefix old s" using prefix_order.trans by blast
        with False show False by simp
      qed
      moreover have "s = join old ((x # q) # qs')"
        using Cons qs(2) q by (cases qs') auto
      ultimately have "(x # q) # qs' \<noteq> [] \<and> s = join old ((x # q) # qs') \<and>
          (\<forall>p\<in>set ((x # q) # qs'). \<not> sublist old p)"
        using qs(3) q by auto
      then show ?thesis by blast
    qed
  qed
qed


lemma replace_special_tokens_result:
  assumes s: "getitem r (source_column db) = Inr s" and t: "getitem r (target_column db) = Inr t"
  shows "replace_special_tokens db r =
           Inr (AList.update (target_column db)
                  (replace ''{sep_token}'' (separation_token db)
                     (if target_column db = source_column db
                      then replace ''{hl_token}'' (highlight_token db) s else t))
                 (AList.update (source_column db) (replace ''{hl_token}'' (highlight_token db) s) r))"
proof (cases "target_column db = source_column db")
  case True
  with s show ?thesis
    by (simp add: replace_special_tokens_def getitem_update_same)
next
  case False
  with s t show ?thesis
    by (simp add: replace_special_tokens_def getitem_update_other)
qed

text \<open>
  When one column is configured as both source and target, the field is the source
  field and the target field at once: \<open>x{sep_token}y\<close> contains no \<open>{hl_token}\<close>, and
  yet the source field of the result is \<open>x<sep>y\<close>, because the second assignment
  replaces the separation placeholder in the same field.
\<close>

theorem replace_special_tokens_shared_column:
  "\<not> sublist ''{hl_token}'' ''x{sep_token}y'' \<and>
   getitem [(''t'', ''x{sep_token}y'')]
     (source_column (DEFAULT_ARGS\<lparr>source_column := ''t'', target_column := ''t''\<rparr>)) =
     Inr ''x{sep_token}y'' \<and>
   replace_special_tokens (DEFAULT_ARGS\<lparr>source_column := ''t'', target_column := ''t''\<rparr>)
     [(''t'', ''x{sep_token}y'')] = Inr [(''t'', ''x<sep>y'')] \<and>
   getitem [(''t'', ''x<sep>y'')]
     (source_column (DEFAULT_ARGS\<lparr>source_column := ''t'', target_column := ''t''\<rparr>)) \<noteq>
     Inr ''x{sep_token}y''"
  by code_simp

text \<open>
  Claim C7, amended. On a row with both columns, \<open>_replace_special_tokens\<close> returns a
  row, and the other fields are unchanged. When the source and the target column are
  different, every occurrence of the literal \<open>{hl_token}\<close> in the source field is
  replaced by the highlight token and every occurrence of \<open>{sep_token}\<close> in the target
  field by the separation token: a text that is the pieces \<open>ps\<close> joined by the
  pattern, no piece containing the pattern, becomes the same pieces joined by the token,
  and a text without its field's pattern is unchanged. When the two columns are the same
  column, the field first has every \<open>{hl_token}\<close> replaced by the highlight token and
  then every \<open>{sep_token}\<close> of that result replaced by the separation token; a text
  with neither pattern is unchanged. Every text is a join of pieces without the pattern
  (\<open>join_decomposition\<close>).
\<close>

theorem replace_special_tokens_all:
  assumes s: "getitem r (source_column db) = Inr s" and t: "getitem r (target_column db) = Inr t"
  shows "\<exists>r'. replace_special_tokens db r = Inr r' \<and>
           (source_column db \<noteq> target_column db \<longrightarrow>
              (\<forall>ps. s = join ''{hl_token}'' ps \<and> (\<forall>p\<in>set ps. \<not> sublist ''{hl_token}'' p) \<longrightarrow>
                    getitem r' (source_column db) = Inr (join (highlight_token db) ps)) \<and>
              (\<forall>qs. t = join ''{sep_token}'' qs \<and> (\<forall>q\<in>set qs. \<not> sublist ''{sep_token}'' q) \<longrightarrow>
                    getitem r' (target_column db) = Inr (join (separation_token db) qs)) \<and>
              (\<not> sublist ''{hl_token}'' s \<longrightarrow> getitem r' (source_column db) = Inr s) \<and>
              (\<not> sublist ''{sep_token}'' t \<longrightarrow> getitem r' (target_column db) = Inr t)) \<and>
           (source_column db = target_column db \<longrightarrow>
              (\<forall>ps qs. s = join ''{hl_token}'' ps \<and> (\<forall>p\<in>set ps. \<not> sublist ''{hl_token}'' p) \<and>
                       join (highlight_token db) ps = join ''{sep_token}'' qs \<and>
                       (\<forall>q\<in>set qs. \<not> sublist ''{sep_token}'' q) \<longrightarrow>
                    getitem r' (source_column db) = Inr (join (separation_token db) qs)) \<and>
              (\<not> sublist ''{hl_token}'' s \<and> \<not> sublist ''{sep_token}'' s \<longrightarrow>
                    getitem r' (source_column db) = Inr s)) \<and>
           (\<forall>k. k \<noteq> source_column db \<and> k \<noteq> target_column db \<longrightarrow> getitem r' k = getitem r k)"
proof -
  define s1 where "s1 = replace ''{hl_token}'' (highlight_token db) s"
  define t1 where "t1 = (if target_column db = source_column db then s1 else t)"
  define r' where "r' = AList.update (target_column db)
                          (replace ''{sep_token}'' (separation_token db) t1)
                          (AList.update (source_column db) s1 r)"
  have res: "replace_special_tokens db r = Inr r'"
    unfolding r'_def t1_def s1_def using s t by (rule replace_special_tokens_result)
  have tgt: "getitem r' (target_column db) = Inr (replace ''{sep_token}'' (separation_token db) t1)"
    unfolding r'_def by (simp add: getitem_update_same)
  have src: "source_column db \<noteq> target_column db \<Longrightarrow> getitem r' (source_column db) = Inr s1"
    unfolding r'_def by (simp add: getitem_update)
  have other: "\<forall>k. k \<noteq> source_column db \<and> k \<noteq> target_column db \<longrightarrow> getitem r' k = getitem r k"
    unfolding r'_def by (simp add: getitem_update)
  have hl: "replace ''{hl_token}'' new (join ''{hl_token}'' ps) = join new ps"
    if "\<forall>p\<in>set ps. \<not> sublist ''{hl_token}'' p" for ps new
    using that by (intro replace_join) simp
  have sep: "replace ''{sep_token}'' new (join ''{sep_token}'' qs) = join new qs"
    if "\<forall>q\<in>set qs. \<not> sublist ''{sep_token}'' q" for qs new
    using that by (intro replace_join) simp
  have distinct_case: "(\<forall>ps. s = join ''{hl_token}'' ps \<and> (\<forall>p\<in>set ps. \<not> sublist ''{hl_token}'' p) \<longrightarrow>
                    getitem r' (source_column db) = Inr (join (highlight_token db) ps)) \<and>
              (\<forall>qs. t = join ''{sep_token}'' qs \<and> (\<forall>q\<in>set qs. \<not> sublist ''{sep_token}'' q) \<longrightarrow>
                    getitem r' (target_column db) = Inr (join (separation_token db) qs)) \<and>
              (\<not> sublist ''{hl_token}'' s \<longrightarrow> getitem r' (source_column db) = Inr s) \<and>
              (\<not> sublist ''{sep_token}'' t \<longrightarrow> getitem r' (target_column db) = Inr t)"
    if ne: "source_column db \<noteq> target_column db"
  proof -
    have sr: "getitem r' (source_column db) = Inr (replace ''{hl_token}'' (highlight_token db) s)"
      using src [OF ne] by (simp add: s1_def)
    have tr: "getitem r' (target_column db) = Inr (replace ''{sep_token}'' (separation_token db) t)"
      using tgt ne by (simp add: t1_def)
    have a: "\<forall>ps. s = join ''{hl_token}'' ps \<and> (\<forall>p\<in>set ps. \<not> sublist ''{hl_token}'' p) \<longrightarrow>
                 getitem r' (source_column db) = Inr (join (highlight_token db) ps)"
      using sr hl by auto
    have b: "\<forall>qs. t = join ''{sep_token}'' qs \<and> (\<forall>q\<in>set qs. \<not> sublist ''{sep_token}'' q) \<longrightarrow>
                 getitem r' (target_column db) = Inr (join (separation_token db) qs)"
      using tr sep by auto
    have c: "\<not> sublist ''{hl_token}'' s \<longrightarrow> getitem r' (source_column db) = Inr s"
      using sr by (simp add: replace_absent)
    have d: "\<not> sublist ''{sep_token}'' t \<longrightarrow> getitem r' (target_column db) = Inr t"
      using tr by (simp add: replace_absent)
    show ?thesis using a b c d by blast
  qed
  have shared_case: "(\<forall>ps qs. s = join ''{hl_token}'' ps \<and> (\<forall>p\<in>set ps. \<not> sublist ''{hl_token}'' p) \<and>
                       join (highlight_token db) ps = join ''{sep_token}'' qs \<and>
                       (\<forall>q\<in>set qs. \<not> sublist ''{sep_token}'' q) \<longrightarrow>
                    getitem r' (source_column db) = Inr (join (separation_token db) qs)) \<and>
              (\<not> sublist ''{hl_token}'' s \<and> \<not> sublist ''{sep_token}'' s \<longrightarrow>
                    getitem r' (source_column db) = Inr s)"
    if eq: "source_column db = target_column db"
  proof -
    have sr: "getitem r' (source_column db) =
                Inr (replace ''{sep_token}'' (separation_token db)
                       (replace ''{hl_token}'' (highlight_token db) s))"
      using tgt eq by (simp add: t1_def s1_def)
    have a: "getitem r' (source_column db) = Inr (join (separation_token db) qs)"
      if "s = join ''{hl_token}'' ps" "\<forall>p\<in>set ps. \<not> sublist ''{hl_token}'' p"
        "join (highlight_token db) ps = join ''{sep_token}'' qs"
        "\<forall>q\<in>set qs. \<not> sublist ''{sep_token}'' q" for ps qs
    proof -
      have "replace ''{hl_token}'' (highlight_token db) s = join ''{sep_token}'' qs"
        using that(1,3) hl [OF that(2)] by simp
      then show ?thesis
        using sr sep [OF that(4)] by simp
    qed
    have b: "\<not> sublist ''{hl_token}'' s \<and> \<not> sublist ''{sep_token}'' s \<longrightarrow>
                    getitem r' (source_column db) = Inr s"
      using sr by (simp add: replace_absent)
    show ?thesis using a b by blast
  qed
  show ?thesis
    using res distinct_case shared_case other by blast
qed

theorem replace_special_tokens_all_witness:
  "getitem [(''source_text'', ''a {hl_token}b{hl_token} c''), (''target_text'', ''x{sep_token}y'')]
     (source_column DEFAULT_ARGS) = Inr ''a {hl_token}b{hl_token} c'' \<and>
   getitem [(''source_text'', ''a {hl_token}b{hl_token} c''), (''target_text'', ''x{sep_token}y'')]
     (target_column DEFAULT_ARGS) = Inr ''x{sep_token}y'' \<and>
   source_column DEFAULT_ARGS \<noteq> target_column DEFAULT_ARGS \<and>
   replace_special_tokens DEFAULT_ARGS
     [(''source_text'', ''a {hl_token}b{hl_token} c''), (''target_text'', ''x{sep_token}y'')] =
     Inr [(''source_text'', ''a <hl>b<hl> c''), (''target_text'', ''x<sep>y'')] \<and>
   getitem [(''t'', ''a{hl_token}b{sep_token}c'')]
     (source_column (DEFAULT_ARGS\<lparr>source_column := ''t'', target_column := ''t''\<rparr>)) =
     Inr ''a{hl_token}b{sep_token}c'' \<and>
   source_column (DEFAULT_ARGS\<lparr>source_column := ''t'', target_column := ''t''\<rparr>) =
     target_column (DEFAULT_ARGS\<lparr>source_column := ''t'', target_column := ''t''\<rparr>) \<and>
   replace_special_tokens (DEFAULT_ARGS\<lparr>source_column := ''t'', target_column := ''t''\<rparr>)
     [(''t'', ''a{hl_token}b{sep_token}c'')] = Inr [(''t'', ''a<hl>b<sep>c'')]"
proof -
  let ?r = "[(''source_text'', ''a {hl_token}b{hl_token} c''), (''target_text'', ''x{sep_token}y'')]"
  let ?db = "DEFAULT_ARGS\<lparr>source_column := ''t'', target_column := ''t''\<rparr>"
  let ?q = "[(''t'', ''a{hl_token}b{sep_token}c'')]"
  have h1: "getitem ?r (source_column DEFAULT_ARGS) = Inr ''a {hl_token}b{hl_token} c''"
    by (simp add: DEFAULT_ARGS_def getitem_def)
  have h2: "getitem ?r (target_column DEFAULT_ARGS) = Inr ''x{sep_token}y''"
    by (simp add: DEFAULT_ARGS_def getitem_def)
  have h3: "source_column DEFAULT_ARGS \<noteq> target_column DEFAULT_ARGS"
    by (simp add: DEFAULT_ARGS_def)
  have e: "replace_special_tokens DEFAULT_ARGS ?r =
     Inr [(''source_text'', ''a <hl>b<hl> c''), (''target_text'', ''x<sep>y'')]"
    by code_simp
  have g1: "getitem ?q (source_column ?db) = Inr ''a{hl_token}b{sep_token}c''"
    by (simp add: DEFAULT_ARGS_def getitem_def)
  have g2: "getitem ?q (target_column ?db) = Inr ''a{hl_token}b{sep_token}c''"
    by (simp add: DEFAULT_ARGS_def getitem_def)
  have g3: "source_column ?db = target_column ?db"
    by simp
  have f: "replace_special_tokens ?db ?q = Inr [(''t'', ''a<hl>b<sep>c'')]"
    by code_simp
  show ?thesis
    using replace_special_tokens_all [OF h1 h2] replace_special_tokens_all [OF g1 g2]
      h1 h2 h3 e g1 g3 f by simp
qed

section \<open>Feature encoding\<close>

lemma getitem_total: "k \<in> set (map fst r) \<longleftrightarrow> (\<exists>v. getitem r k = Inr v)"
proof
  assume "k \<in> set (map fst r)"
  then have "map_of r k \<noteq> None" by (simp add: map_of_eq_None_iff)
  then show "\<exists>v. getitem r k = Inr v" by (auto simp add: getitem_def)
next
  assume "\<exists>v. getitem r k = Inr v"
  then have "map_of r k \<noteq> None" by (auto simp add: getitem_def split: option.splits)
  then show "k \<in> set (map fst r)" by (simp add: map_of_eq_None_iff)
qed

lemma column_iff: "column rs k = Inr vs \<longleftrightarrow> list_all2 (\<lambda>r v. getitem r k = Inr v) rs vs"
proof (induction rs arbitrary: vs)
  case Nil
  show ?case by auto
next
  case (Cons r rs)
  show ?case
  proof (cases "getitem r k")
    case (Inl e)
    then show ?thesis by (auto simp add: list_all2_Cons1)
  next
    case (Inr v)
    show ?thesis
    proof (cases "column rs k")
      case (Inl e)
      with Cons [of "tl vs"] Inr show ?thesis
        by (auto simp add: list_all2_Cons1 Cons)
    next
      case r: (Inr ws)
      with Cons Inr show ?thesis
        by (auto simp add: list_all2_Cons1)
    qed
  qed
qed

lemma map_rows_iff: "map_rows f rs = Inr rs' \<longleftrightarrow> list_all2 (\<lambda>r r'. f r = Inr r') rs rs'"
proof (induction rs arbitrary: rs')
  case Nil
  show ?case by auto
next
  case (Cons r rs)
  show ?case
  proof (cases "f r")
    case (Inl e)
    then show ?thesis by (auto simp add: list_all2_Cons1)
  next
    case (Inr v)
    show ?thesis
    proof (cases "map_rows f rs")
      case (Inl e)
      with Cons Inr show ?thesis
        by (auto simp add: list_all2_Cons1)
    next
      case r: (Inr ws)
      with Cons Inr show ?thesis
        by (auto simp add: list_all2_Cons1)
    qed
  qed
qed

lemma list_all2_total:
  assumes "\<forall>x\<in>set xs. \<exists>y. P x y"
  shows "\<exists>ys. list_all2 P xs ys"
  using assms
proof (induction xs)
  case Nil
  show ?case by simp
next
  case (Cons x xs)
  then obtain y ys where "P x y" "list_all2 P xs ys" by auto
  then have "list_all2 P (x # xs) (y # ys)" by simp
  then show ?case by blast
qed


lemma length_pad_truncate: "length (pad_truncate n pad ids) = n"
  by (simp add: pad_truncate_def)

lemma length_mask_of: "length (mask_of n ids) = n"
  by (simp add: mask_of_def)

lemma pad_truncate_long: "n < length ids \<Longrightarrow> pad_truncate n pad ids = take n ids"
  by (simp add: pad_truncate_def)

lemma to_features_Inr:
  assumes "to_features db tok b = Inr enc"
  shows "\<exists>srcs tgts.
           list_all2 (\<lambda>r v. getitem r (source_column db) = Inr v) b srcs \<and>
           list_all2 (\<lambda>r v. getitem r (target_column db) = Inr v) b tgts \<and>
           source_ids enc = map (\<lambda>s. pad_truncate (source_max_length db) (pad_token_id tok)
                                     (text_ids tok (added_tokens tok) s)) srcs \<and>
           target_ids enc = map (\<lambda>s. pad_truncate (target_max_length db) (pad_token_id tok)
                                     (text_ids tok (added_tokens tok) s)) tgts \<and>
           attention_mask enc = map (\<lambda>s. mask_of (source_max_length db)
                                     (text_ids tok (added_tokens tok) s)) srcs"
proof -
  from assms obtain srcs where srcs: "column b (source_column db) = Inr srcs"
    by (auto simp add: to_features_def split: sum.splits)
  with assms obtain tgts where tgts: "column b (target_column db) = Inr tgts"
    by (auto simp add: to_features_def Let_def split: sum.splits)
  from assms srcs tgts have
    "enc = \<lparr> source_ids = input_ids (batch_encode_plus tok srcs (source_max_length db)),
             target_ids = input_ids (batch_encode_plus tok tgts (target_max_length db)),
             attention_mask = encoding_mask (batch_encode_plus tok srcs (source_max_length db)) \<rparr>"
    by (simp add: to_features_def Let_def)
  then have "source_ids enc = map (\<lambda>s. pad_truncate (source_max_length db) (pad_token_id tok)
                                     (text_ids tok (added_tokens tok) s)) srcs"
    and "target_ids enc = map (\<lambda>s. pad_truncate (target_max_length db) (pad_token_id tok)
                                     (text_ids tok (added_tokens tok) s)) tgts"
    and "attention_mask enc = map (\<lambda>s. mask_of (source_max_length db)
                                     (text_ids tok (added_tokens tok) s)) srcs"
    by (simp_all add: batch_encode_plus_def)
  with srcs tgts show ?thesis
    by (auto simp add: column_iff)
qed

lemma has_columnsD:
  assumes "has_columns db r"
  shows "\<exists>v. getitem r (source_column db) = Inr v" and "\<exists>v. getitem r (target_column db) = Inr v"
  using assms unfolding has_columns_def getitem_total by blast+

lemma to_features_total:
  assumes "\<forall>r\<in>set b. has_columns db r"
  shows "\<exists>enc. to_features db tok b = Inr enc"
proof -
  from assms have "\<forall>r\<in>set b. \<exists>v. getitem r (source_column db) = Inr v"
    using has_columnsD(1) by blast
  then obtain srcs where "column b (source_column db) = Inr srcs"
    using list_all2_total [of b "\<lambda>r v. getitem r (source_column db) = Inr v"]
    by (auto simp add: column_iff)
  moreover from assms have "\<forall>r\<in>set b. \<exists>v. getitem r (target_column db) = Inr v"
    using has_columnsD(2) by blast
  then obtain tgts where "column b (target_column db) = Inr tgts"
    using list_all2_total [of b "\<lambda>r v. getitem r (target_column db) = Inr v"]
    by (auto simp add: column_iff)
  ultimately show ?thesis
    by (simp add: to_features_def Let_def)
qed

text \<open>
  Claim C3. For a batch whose rows have both columns, \<open>_to_features\<close> returns without
  error; the three arrays have one entry per row of the batch; every \<open>source_ids\<close>
  and \<open>attention_mask\<close> entry has \<open>source_max_length\<close> elements and every
  \<open>target_ids\<close> entry \<open>target_max_length\<close>; and a source text with more tokens than
  \<open>source_max_length\<close> is encoded as its first \<open>source_max_length\<close> tokens.
\<close>

theorem to_features_shape:
  assumes "\<forall>r\<in>set b. has_columns db r"
  shows "\<exists>enc. to_features db tok b = Inr enc \<and>
           length (source_ids enc) = length b \<and>
           length (target_ids enc) = length b \<and>
           length (attention_mask enc) = length b \<and>
           (\<forall>i<length b.
              length (source_ids enc ! i) = source_max_length db \<and>
              length (target_ids enc ! i) = target_max_length db \<and>
              length (attention_mask enc ! i) = source_max_length db \<and>
              (\<forall>s. getitem (b ! i) (source_column db) = Inr s \<and>
                    source_max_length db < length (text_ids tok (added_tokens tok) s) \<longrightarrow>
                    source_ids enc ! i = take (source_max_length db) (text_ids tok (added_tokens tok) s)))"
proof -
  from assms obtain enc where enc: "to_features db tok b = Inr enc"
    using to_features_total by blast
  then obtain srcs tgts where
    srcs: "list_all2 (\<lambda>r v. getitem r (source_column db) = Inr v) b srcs" and
    tgts: "list_all2 (\<lambda>r v. getitem r (target_column db) = Inr v) b tgts" and
    si: "source_ids enc = map (\<lambda>s. pad_truncate (source_max_length db) (pad_token_id tok)
                                     (text_ids tok (added_tokens tok) s)) srcs" and
    ti: "target_ids enc = map (\<lambda>s. pad_truncate (target_max_length db) (pad_token_id tok)
                                     (text_ids tok (added_tokens tok) s)) tgts" and
    am: "attention_mask enc = map (\<lambda>s. mask_of (source_max_length db)
                                     (text_ids tok (added_tokens tok) s)) srcs"
    using to_features_Inr by blast
  have ls: "length srcs = length b"
    using list_all2_lengthD [OF srcs] by simp
  have lt: "length tgts = length b"
    using list_all2_lengthD [OF tgts] by simp
  have lens: "length (source_ids enc) = length b" "length (target_ids enc) = length b"
    "length (attention_mask enc) = length b"
    using si ti am ls lt by simp_all
  have each: "length (source_ids enc ! i) = source_max_length db \<and>
              length (target_ids enc ! i) = target_max_length db \<and>
              length (attention_mask enc ! i) = source_max_length db \<and>
              (\<forall>s. getitem (b ! i) (source_column db) = Inr s \<and>
                    source_max_length db < length (text_ids tok (added_tokens tok) s) \<longrightarrow>
                    source_ids enc ! i = take (source_max_length db) (text_ids tok (added_tokens tok) s))"
    if i: "i < length b" for i
  proof -
    have g: "getitem (b ! i) (source_column db) = Inr (srcs ! i)"
      using srcs i by (simp add: list_all2_conv_all_nth)
    have "source_ids enc ! i = pad_truncate (source_max_length db) (pad_token_id tok)
                                     (text_ids tok (added_tokens tok) (srcs ! i))"
      using si i ls by simp
    moreover have "target_ids enc ! i = pad_truncate (target_max_length db) (pad_token_id tok)
                                     (text_ids tok (added_tokens tok) (tgts ! i))"
      using ti i lt by simp
    moreover have "attention_mask enc ! i = mask_of (source_max_length db)
                                     (text_ids tok (added_tokens tok) (srcs ! i))"
      using am i ls by simp
    ultimately show ?thesis
      using g by (auto simp add: length_pad_truncate length_mask_of pad_truncate_long)
  qed
  show ?thesis
    using enc lens each by blast
qed


theorem to_features_shape_witness:
  "has_columns (DEFAULT_ARGS\<lparr>source_max_length := 3, target_max_length := 2\<rparr>)
     [(''source_text'', ''abcd''), (''target_text'', ''x'')] \<and>
   has_columns (DEFAULT_ARGS\<lparr>source_max_length := 3, target_max_length := 2\<rparr>)
     [(''source_text'', ''a''), (''target_text'', ''xyz'')] \<and>
   to_features (DEFAULT_ARGS\<lparr>source_max_length := 3, target_max_length := 2\<rparr>) char_tokenizer
     [[(''source_text'', ''abcd''), (''target_text'', ''x'')],
      [(''source_text'', ''a''), (''target_text'', ''xyz'')]] =
     Inr \<lparr> source_ids = [[97, 98, 99], [97, 0, 0]],
           target_ids = [[120, 0], [120, 121]],
           attention_mask = [[1, 1, 1], [1, 0, 0]] \<rparr>"
proof -
  let ?db = "DEFAULT_ARGS\<lparr>source_max_length := 3, target_max_length := 2\<rparr>"
  let ?r1 = "[(''source_text'', ''abcd''), (''target_text'', ''x'')]"
  let ?r2 = "[(''source_text'', ''a''), (''target_text'', ''xyz'')]"
  have h1: "has_columns ?db ?r1" and h2: "has_columns ?db ?r2"
    by (simp_all add: has_columns_def DEFAULT_ARGS_def)
  then have h: "\<forall>r\<in>set [?r1, ?r2]. has_columns ?db r" by simp
  have e: "to_features ?db char_tokenizer [?r1, ?r2] =
     Inr \<lparr> source_ids = [[97, 98, 99], [97, 0, 0]],
           target_ids = [[120, 0], [120, 121]],
           attention_mask = [[1, 1, 1], [1, 0, 0]] \<rparr>"
    by code_simp
  show ?thesis
    using to_features_shape [OF h, of char_tokenizer] h1 h2 e by simp
qed

lemma column_singleton: "getitem r k = Inr v \<Longrightarrow> column [r] k = Inr [v]"
  by simp

lemma to_features_columns:
  assumes "column b (source_column db) = Inr srcs" and "column b (target_column db) = Inr tgts"
  shows "to_features db tok b =
           Inr \<lparr> source_ids = map (\<lambda>s. pad_truncate (source_max_length db) (pad_token_id tok)
                                     (text_ids tok (added_tokens tok) s)) srcs,
                 target_ids = map (\<lambda>s. pad_truncate (target_max_length db) (pad_token_id tok)
                                     (text_ids tok (added_tokens tok) s)) tgts,
                 attention_mask = map (\<lambda>s. mask_of (source_max_length db)
                                     (text_ids tok (added_tokens tok) s)) srcs \<rparr>"
  using assms by (simp add: to_features_def Let_def batch_encode_plus_def)

lemma to_features_aligned:
  assumes "to_features db tok b = Inr enc"
  shows "aligned db tok b enc"
proof -
  from assms obtain srcs tgts where
    srcs: "list_all2 (\<lambda>r v. getitem r (source_column db) = Inr v) b srcs" and
    tgts: "list_all2 (\<lambda>r v. getitem r (target_column db) = Inr v) b tgts" and
    si: "source_ids enc = map (\<lambda>s. pad_truncate (source_max_length db) (pad_token_id tok)
                                     (text_ids tok (added_tokens tok) s)) srcs" and
    ti: "target_ids enc = map (\<lambda>s. pad_truncate (target_max_length db) (pad_token_id tok)
                                     (text_ids tok (added_tokens tok) s)) tgts" and
    am: "attention_mask enc = map (\<lambda>s. mask_of (source_max_length db)
                                     (text_ids tok (added_tokens tok) s)) srcs"
    using to_features_Inr by blast
  have ls: "length srcs = length b"
    using list_all2_lengthD [OF srcs] by simp
  have lt: "length tgts = length b"
    using list_all2_lengthD [OF tgts] by simp
  have one: "to_features db tok [b ! i] =
          Inr \<lparr> source_ids = [source_ids enc ! i],
                target_ids = [target_ids enc ! i],
                attention_mask = [attention_mask enc ! i] \<rparr>" if i: "i < length b" for i
  proof -
    have "getitem (b ! i) (source_column db) = Inr (srcs ! i)"
      using srcs i by (simp add: list_all2_conv_all_nth)
    then have c1: "column [b ! i] (source_column db) = Inr [srcs ! i]"
      by (rule column_singleton)
    have "getitem (b ! i) (target_column db) = Inr (tgts ! i)"
      using tgts i by (simp add: list_all2_conv_all_nth)
    then have c2: "column [b ! i] (target_column db) = Inr [tgts ! i]"
      by (rule column_singleton)
    show ?thesis
      using i ls lt by (simp add: to_features_columns [OF c1 c2] si ti am)
  qed
  show ?thesis
    unfolding aligned_def using si ti am ls lt one by simp
qed

lemma aligned_append:
  assumes a: "aligned db tok xs e1" and b: "aligned db tok ys e2"
  shows "aligned db tok (xs @ ys)
           \<lparr> source_ids = source_ids e1 @ source_ids e2,
             target_ids = target_ids e1 @ target_ids e2,
             attention_mask = attention_mask e1 @ attention_mask e2 \<rparr>"
proof -
  from a have la: "length (source_ids e1) = length xs" "length (target_ids e1) = length xs"
    "length (attention_mask e1) = length xs"
    by (simp_all add: aligned_def)
  from b have lb: "length (source_ids e2) = length ys" "length (target_ids e2) = length ys"
    "length (attention_mask e2) = length ys"
    by (simp_all add: aligned_def)
  have "to_features db tok [(xs @ ys) ! i] =
          Inr \<lparr> source_ids = [(source_ids e1 @ source_ids e2) ! i],
                target_ids = [(target_ids e1 @ target_ids e2) ! i],
                attention_mask = [(attention_mask e1 @ attention_mask e2) ! i] \<rparr>"
    if i: "i < length xs + length ys" for i
  proof (cases "i < length xs")
    case True
    with a la show ?thesis by (simp add: aligned_def nth_append)
  next
    case False
    with i have "i - length xs < length ys" by simp
    with b have "to_features db tok [ys ! (i - length xs)] =
          Inr \<lparr> source_ids = [source_ids e2 ! (i - length xs)],
                target_ids = [target_ids e2 ! (i - length xs)],
                attention_mask = [attention_mask e2 ! (i - length xs)] \<rparr>"
      by (simp add: aligned_def)
    with False la show ?thesis by (simp add: nth_append)
  qed
  then show ?thesis
    using la lb by (simp add: aligned_def)
qed

lemma map_batched_aligned:
  "map_batched (to_features db tok) bs = Inr enc \<Longrightarrow> aligned db tok (concat bs) enc"
proof (induction bs arbitrary: enc)
  case Nil
  then show ?case by (auto simp add: aligned_def)
next
  case (Cons b bs)
  from Cons.prems obtain e1 where e1: "to_features db tok b = Inr e1"
    by (auto split: sum.splits)
  with Cons.prems obtain e2 where e2: "map_batched (to_features db tok) bs = Inr e2"
    by (auto split: sum.splits)
  from Cons.prems e1 e2 have enc: "enc = \<lparr> source_ids = source_ids e1 @ source_ids e2,
             target_ids = target_ids e1 @ target_ids e2,
             attention_mask = attention_mask e1 @ attention_mask e2 \<rparr>"
    by simp
  have "aligned db tok b e1" using e1 by (rule to_features_aligned)
  moreover have "aligned db tok (concat bs) e2" using e2 by (rule Cons.IH)
  ultimately show ?case
    unfolding enc using aligned_append by simp
qed

lemma map_batched_total:
  "\<forall>b\<in>set bs. \<exists>e. f b = Inr e \<Longrightarrow> \<exists>enc. map_batched f bs = Inr enc"
  by (induction bs) auto

lemma concat_batches: "concat (batches n xs) = xs"
proof (induction n xs rule: batches.induct)
  case (1 n xs)
  show ?case
  proof (cases "xs = [] \<or> n = 0")
    case True
    then show ?thesis by (subst batches.simps) auto
  next
    case False
    with 1 have "concat (batches n (drop n xs)) = drop n xs" by simp
    with False show ?thesis by (subst batches.simps) simp
  qed
qed

lemma batches_singleton: "batches 1000 [r] = [[r]]"
  by (simp add: batches.simps)

section \<open>Positional alignment of the pipeline\<close>

lemma has_columns_keys: "map fst r' = map fst r \<Longrightarrow> has_columns db r' = has_columns db r"
  by (simp only: has_columns_def)

lemma update_keys_present: "k \<in> set (map fst r) \<Longrightarrow> map fst (AList.update k v r) = map fst r"
  by (simp only: update_keys if_True)

lemma add_eos_total:
  assumes "has_columns db r"
  shows "\<exists>r'. add_eos db r = Inr r' \<and> has_columns db r'"
proof -
  from assms obtain s t where
    s: "getitem r (source_column db) = Inr s" and t: "getitem r (target_column db) = Inr t"
    using has_columnsD by blast
  define r1 where "r1 = AList.update (source_column db) (eos_field s) r"
  define r2 where "r2 = AList.update (target_column db) (eos_field t) r1"
  have k1: "map fst r1 = map fst r"
    unfolding r1_def using assms by (intro update_keys_present) (simp add: has_columns_def)
  then have "target_column db \<in> set (map fst r1)"
    using assms by (simp only: has_columns_def)
  then have "map fst r2 = map fst r1"
    unfolding r2_def by (rule update_keys_present)
  with k1 have "has_columns db r2 = has_columns db r"
    by (intro has_columns_keys) simp
  moreover have "add_eos db r = Inr r2"
    unfolding r2_def r1_def using s t by (rule add_eos_result)
  ultimately show ?thesis using assms by blast
qed

lemma replace_special_tokens_total:
  assumes "has_columns db r"
  shows "\<exists>r'. replace_special_tokens db r = Inr r' \<and> has_columns db r'"
proof -
  from assms obtain s where s: "getitem r (source_column db) = Inr s"
    using has_columnsD by blast
  define r1 where "r1 = AList.update (source_column db) (replace ''{hl_token}'' (highlight_token db) s) r"
  have k1: "map fst r1 = map fst r"
    unfolding r1_def using assms by (intro update_keys_present) (simp add: has_columns_def)
  then have h1: "has_columns db r1"
    using assms has_columns_keys by blast
  then obtain t where t: "getitem r1 (target_column db) = Inr t"
    using has_columnsD by blast
  define r2 where "r2 = AList.update (target_column db) (replace ''{sep_token}'' (separation_token db) t) r1"
  have "target_column db \<in> set (map fst r1)"
    using h1 by (simp only: has_columns_def)
  then have "map fst r2 = map fst r1"
    unfolding r2_def by (rule update_keys_present)
  then have "has_columns db r2"
    using h1 has_columns_keys by blast
  moreover have "replace_special_tokens db r = Inr r2"
    using s t by (simp add: replace_special_tokens_def r1_def [symmetric] r2_def)
  ultimately show ?thesis by blast
qed

lemma map_rows_total:
  assumes "\<forall>r\<in>set rs. P r \<longrightarrow> (\<exists>r'. f r = Inr r' \<and> Q r')" and "\<forall>r\<in>set rs. P r"
  shows "\<exists>rs'. map_rows f rs = Inr rs' \<and> (\<forall>r'\<in>set rs'. Q r')"
  using assms
proof (induction rs)
  case Nil
  show ?case by simp
next
  case (Cons r rs)
  then obtain r' where r': "f r = Inr r'" "Q r'" by auto
  from Cons obtain rs' where rs': "map_rows f rs = Inr rs'" "\<forall>r'\<in>set rs'. Q r'" by auto
  from r' rs' have "map_rows f (r # rs) = Inr (r' # rs') \<and> (\<forall>x\<in>set (r' # rs'). Q x)" by simp
  then show ?case by blast
qed

lemma map_rows_nth:
  assumes "map_rows f rs = Inr rs'"
  shows "length rs' = length rs" and "i < length rs \<Longrightarrow> map_rows f [rs ! i] = Inr [rs' ! i]"
proof -
  from assms have l: "list_all2 (\<lambda>r r'. f r = Inr r') rs rs'"
    by (simp only: map_rows_iff)
  then show "length rs' = length rs"
    using list_all2_lengthD by fastforce
  show "map_rows f [rs ! i] = Inr [rs' ! i]" if "i < length rs"
  proof -
    from l that have "f (rs ! i) = Inr (rs' ! i)"
      by (simp add: list_all2_conv_all_nth)
    then show ?thesis by simp
  qed
qed

lemma preprocess_stages:
  assumes "map_rows (add_eos db) rows = Inr rows1"
    and "map_rows (replace_special_tokens db) rows1 = Inr rows2"
    and "map_batched (to_features db tok) (batches 1000 rows2) = Inr enc"
  shows "preprocess db tok rows =
           Inr \<lparr> source_ids = source_ids enc, target_ids = target_ids enc,
                 attention_mask = attention_mask enc, text_rows = rows2,
                 format_columns = None \<rparr>"
  using assms by (simp add: preprocess_def)

lemma map_batched_one:
  assumes "to_features db tok [r] = Inr e"
  shows "map_batched (to_features db tok) (batches 1000 [r]) = Inr e"
  using assms by (simp add: batches_singleton)


lemma preprocess_total:
  assumes "\<forall>r\<in>set rows. has_columns db r"
  shows "\<exists>rows1 rows2 enc.
           map_rows (add_eos db) rows = Inr rows1 \<and>
           map_rows (replace_special_tokens db) rows1 = Inr rows2 \<and>
           map_batched (to_features db tok) (batches 1000 rows2) = Inr enc"
proof -
  obtain rows1 where r1: "map_rows (add_eos db) rows = Inr rows1"
    and h1: "\<forall>r\<in>set rows1. has_columns db r"
    using map_rows_total [of rows "has_columns db" "add_eos db" "has_columns db"]
      add_eos_total assms by blast
  obtain rows2 where r2: "map_rows (replace_special_tokens db) rows1 = Inr rows2"
    and h2: "\<forall>r\<in>set rows2. has_columns db r"
    using map_rows_total [of rows1 "has_columns db" "replace_special_tokens db" "has_columns db"]
      replace_special_tokens_total h1 by blast
  have "\<forall>b\<in>set (batches 1000 rows2). \<exists>e. to_features db tok b = Inr e"
  proof
    fix b assume b: "b \<in> set (batches 1000 rows2)"
    then have "set b \<subseteq> set (concat (batches 1000 rows2))" by auto
    then have "set b \<subseteq> set rows2" by (simp only: concat_batches)
    with h2 have "\<forall>r\<in>set b. has_columns db r" by blast
    then show "\<exists>e. to_features db tok b = Inr e" by (rule to_features_total)
  qed
  then obtain enc where "map_batched (to_features db tok) (batches 1000 rows2) = Inr enc"
    using map_batched_total by blast
  with r1 r2 show ?thesis by blast
qed

text \<open>
  Claim C9. For rows that have both columns, \<open>preprocess\<close> returns a dataset with one
  entry per input row in each of \<open>source_ids\<close>, \<open>target_ids\<close>, \<open>attention_mask\<close> and
  the text rows, and the entries at index \<open>i\<close> are exactly what \<open>preprocess\<close> returns
  for input row \<open>i\<close> alone: no row is skipped or reordered.
\<close>

theorem preprocess_positional:
  assumes "\<forall>r\<in>set rows. has_columns db r"
  shows "\<exists>ds. preprocess db tok rows = Inr ds \<and>
           length (source_ids ds) = length rows \<and>
           length (target_ids ds) = length rows \<and>
           length (attention_mask ds) = length rows \<and>
           length (text_rows ds) = length rows \<and>
           (\<forall>i<length rows.
              preprocess db tok [rows ! i] =
                Inr \<lparr> source_ids = [source_ids ds ! i],
                      target_ids = [target_ids ds ! i],
                      attention_mask = [attention_mask ds ! i],
                      text_rows = [text_rows ds ! i],
                      format_columns = None \<rparr>)"
proof -
  from assms obtain rows1 rows2 enc where
    r1: "map_rows (add_eos db) rows = Inr rows1" and
    r2: "map_rows (replace_special_tokens db) rows1 = Inr rows2" and
    e: "map_batched (to_features db tok) (batches 1000 rows2) = Inr enc"
    using preprocess_total by blast
  define ds where "ds = \<lparr> source_ids = source_ids enc, target_ids = target_ids enc,
                 attention_mask = attention_mask enc, text_rows = rows2,
                 format_columns = None \<rparr>"
  have res: "preprocess db tok rows = Inr ds"
    unfolding ds_def using r1 r2 e by (rule preprocess_stages)
  have l1: "length rows1 = length rows" using r1 by (rule map_rows_nth(1))
  have l2: "length rows2 = length rows1" using r2 by (rule map_rows_nth(1))
  have al: "aligned db tok rows2 enc"
    using map_batched_aligned [OF e] by (simp only: concat_batches)
  then have lens: "length (source_ids enc) = length rows" "length (target_ids enc) = length rows"
    "length (attention_mask enc) = length rows"
    using l1 l2 by (simp_all add: aligned_def)
  have one: "preprocess db tok [rows ! i] =
                Inr \<lparr> source_ids = [source_ids ds ! i],
                      target_ids = [target_ids ds ! i],
                      attention_mask = [attention_mask ds ! i],
                      text_rows = [text_rows ds ! i],
                      format_columns = None \<rparr>" if i: "i < length rows" for i
  proof -
    define e1 where "e1 = \<lparr> source_ids = [source_ids enc ! i],
                target_ids = [target_ids enc ! i],
                attention_mask = [attention_mask enc ! i] \<rparr>"
    have a: "map_rows (add_eos db) [rows ! i] = Inr [rows1 ! i]"
      using r1 i by (rule map_rows_nth(2))
    have b: "map_rows (replace_special_tokens db) [rows1 ! i] = Inr [rows2 ! i]"
      using r2 i l1 by (intro map_rows_nth(2)) simp_all
    have "to_features db tok [rows2 ! i] = Inr e1"
      unfolding e1_def using al i l1 l2 by (simp add: aligned_def)
    then have c: "map_batched (to_features db tok) (batches 1000 [rows2 ! i]) = Inr e1"
      by (rule map_batched_one)
    show ?thesis
      using preprocess_stages [OF a b c] by (simp add: e1_def ds_def)
  qed
  have "length (source_ids ds) = length rows" "length (target_ids ds) = length rows"
    "length (attention_mask ds) = length rows" "length (text_rows ds) = length rows"
    using lens l1 l2 by (simp_all add: ds_def)
  with res one show ?thesis by blast
qed

theorem preprocess_positional_witness:
  "has_columns (DEFAULT_ARGS\<lparr>source_max_length := 6, target_max_length := 2\<rparr>)
     [(''source_text'', ''ab''), (''target_text'', ''x'')] \<and>
   has_columns (DEFAULT_ARGS\<lparr>source_max_length := 6, target_max_length := 2\<rparr>)
     [(''source_text'', ''c''), (''target_text'', ''yz'')] \<and>
   preprocess (DEFAULT_ARGS\<lparr>source_max_length := 6, target_max_length := 2\<rparr>) char_tokenizer
     [[(''source_text'', ''ab''), (''target_text'', ''x'')],
      [(''source_text'', ''c''), (''target_text'', ''yz'')]] =
     Inr \<lparr> source_ids = [[97, 98, 32, 60, 47, 115], [99, 32, 60, 47, 115, 62]],
           target_ids = [[120, 32], [121, 122]],
           attention_mask = [[1, 1, 1, 1, 1, 1], [1, 1, 1, 1, 1, 1]],
           text_rows = [[(''source_text'', ''ab </s>''), (''target_text'', ''x </s>'')],
                        [(''source_text'', ''c </s>''), (''target_text'', ''yz </s>'')]],
           format_columns = None \<rparr>"
proof -
  let ?db = "DEFAULT_ARGS\<lparr>source_max_length := 6, target_max_length := 2\<rparr>"
  let ?r1 = "[(''source_text'', ''ab''), (''target_text'', ''x'')]"
  let ?r2 = "[(''source_text'', ''c''), (''target_text'', ''yz'')]"
  have h1: "has_columns ?db ?r1" and h2: "has_columns ?db ?r2"
    by (simp_all add: has_columns_def DEFAULT_ARGS_def)
  then have h: "\<forall>r\<in>set [?r1, ?r2]. has_columns ?db r" by simp
  have e: "preprocess ?db char_tokenizer [?r1, ?r2] =
     Inr \<lparr> source_ids = [[97, 98, 32, 60, 47, 115], [99, 32, 60, 47, 115, 62]],
           target_ids = [[120, 32], [121, 122]],
           attention_mask = [[1, 1, 1, 1, 1, 1], [1, 1, 1, 1, 1, 1]],
           text_rows = [[(''source_text'', ''ab </s>''), (''target_text'', ''x </s>'')],
                        [(''source_text'', ''c </s>''), (''target_text'', ''yz </s>'')]],
           format_columns = None \<rparr>"
    by code_simp
  show ?thesis
    using preprocess_positional [OF h, of char_tokenizer] h1 h2 e by simp
qed

section \<open>The main procedure of the databuilder\<close>

lemma last_chars_suffix3: "last_chars 3 p = ''.pt'' \<longleftrightarrow> suffix ''.pt'' p"
proof
  assume "last_chars 3 p = ''.pt''"
  then have "p = take (length p - 3) p @ ''.pt''"
    unfolding last_chars_def by (metis append_take_drop_id)
  then show "suffix ''.pt'' p" unfolding suffix_def by blast
next
  assume "suffix ''.pt'' p"
  then obtain q where "p = q @ ''.pt''" unfolding suffix_def by blast
  then show "last_chars 3 p = ''.pt''" by (simp add: last_chars_def)
qed

text \<open>
  Claim C8. When the source or the target column is missing from the columns of the
  training or of the validation dataframe, or one of the two dataset paths does not end
  in \<open>.pt\<close>, \<open>main\<close> fails with an assertion error that carries a message, whatever
  the tokenizer is: the tokenizer is not consulted, and no dataset is saved.
\<close>

theorem main_configuration_error:
  assumes "source_column db \<notin> set (columns train_df) \<or>
           target_column db \<notin> set (columns train_df) \<or>
           source_column db \<notin> set (columns valid_df) \<or>
           target_column db \<notin> set (columns valid_df) \<or>
           \<not> suffix ''.pt'' (train_file_path db) \<or>
           \<not> suffix ''.pt'' (valid_file_path db)"
  shows "\<exists>msg. msg \<noteq> [] \<and> (\<forall>tok. main db train_df valid_df tok = Inl (AssertionError msg))"
proof -
  let ?m1 = "source_column db @ '' or '' @ target_column db @
                  '' column missing in '' @ train_csv_path db @ ''.''"
  let ?m2 = "source_column db @ '' or '' @ target_column db @
                  '' column missing in '' @ valid_csv_path db @ ''.''"
  let ?m3 = "''train_file_path and valid_file_path must be .pt files.''"
  consider
    (train) "\<not> (source_column db \<in> set (columns train_df) \<and>
                target_column db \<in> set (columns train_df))"
  | (valid) "source_column db \<in> set (columns train_df) \<and>
             target_column db \<in> set (columns train_df)"
            "\<not> (source_column db \<in> set (columns valid_df) \<and>
                target_column db \<in> set (columns valid_df))"
  | (path) "source_column db \<in> set (columns train_df) \<and>
             target_column db \<in> set (columns train_df)"
            "source_column db \<in> set (columns valid_df) \<and>
             target_column db \<in> set (columns valid_df)"
            "\<not> (last_chars 3 (train_file_path db) = ''.pt'' \<and>
                last_chars 3 (valid_file_path db) = ''.pt'')"
    using assms unfolding last_chars_suffix3 by blast
  then show ?thesis
  proof cases
    case train
    then have "\<forall>tok. main db train_df valid_df tok = Inl (AssertionError ?m1)"
      by (simp add: main_def)
    moreover have "?m1 \<noteq> []" by simp
    ultimately show ?thesis by blast
  next
    case valid
    then have "\<forall>tok. main db train_df valid_df tok = Inl (AssertionError ?m2)"
      by (simp add: main_def)
    moreover have "?m2 \<noteq> []" by simp
    ultimately show ?thesis by blast
  next
    case path
    then have "\<forall>tok. main db train_df valid_df tok = Inl (AssertionError ?m3)"
      by (simp add: main_def)
    moreover have "?m3 \<noteq> []" by simp
    ultimately show ?thesis by blast
  qed
qed

theorem main_configuration_error_witness:
  "\<not> suffix ''.pt'' (valid_file_path (DEFAULT_ARGS\<lparr>valid_file_path := ''data/valid.bin''\<rparr>)) \<and>
   main (DEFAULT_ARGS\<lparr>valid_file_path := ''data/valid.bin''\<rparr>)
     \<lparr>columns = [''source_text'', ''target_text''], cells = [[''a'', ''b'']]\<rparr>
     \<lparr>columns = [''source_text'', ''target_text''], cells = [[''c'', ''d'']]\<rparr>
     char_tokenizer =
     Inl (AssertionError ''train_file_path and valid_file_path must be .pt files.'')"
proof -
  let ?db = "DEFAULT_ARGS\<lparr>valid_file_path := ''data/valid.bin''\<rparr>"
  have h: "\<not> suffix ''.pt'' (valid_file_path ?db)"
    by (simp add: DEFAULT_ARGS_def suffix_def)
  then have d: "source_column ?db \<notin> set (columns \<lparr>columns = [''source_text'', ''target_text''], cells = [[''a'', ''b'']]\<rparr>) \<or>
           target_column ?db \<notin> set (columns \<lparr>columns = [''source_text'', ''target_text''], cells = [[''a'', ''b'']]\<rparr>) \<or>
           source_column ?db \<notin> set (columns \<lparr>columns = [''source_text'', ''target_text''], cells = [[''c'', ''d'']]\<rparr>) \<or>
           target_column ?db \<notin> set (columns \<lparr>columns = [''source_text'', ''target_text''], cells = [[''c'', ''d'']]\<rparr>) \<or>
           \<not> suffix ''.pt'' (train_file_path ?db) \<or>
           \<not> suffix ''.pt'' (valid_file_path ?db)"
    by blast
  have e: "main ?db
     \<lparr>columns = [''source_text'', ''target_text''], cells = [[''a'', ''b'']]\<rparr>
     \<lparr>columns = [''source_text'', ''target_text''], cells = [[''c'', ''d'']]\<rparr>
     char_tokenizer =
     Inl (AssertionError ''train_file_path and valid_file_path must be .pt files.'')"
    by (simp add: main_def DEFAULT_ARGS_def last_chars_def)
  show ?thesis
    using main_configuration_error [OF d] h e by simp
qed


text \<open>
  Whenever \<open>main\<close> succeeds, the dataset it saves at \<open>valid_file_path\<close> is the
  encoding of the training dataframe: \<open>valid_dataset\<close> is built from \<open>train_df\<close>.
\<close>

lemma main_saves_train_twice:
  assumes "main db train_df valid_df tok = Inr files"
  shows "\<exists>ds. preprocess db (add_tokens tok [highlight_token db, separation_token db])
                 (from_pandas train_df) = Inr ds \<and>
              map_of files (valid_file_path db) =
                Some (set_format [''source_ids'', ''target_ids'', ''attention_mask''] ds)"
proof -
  let ?tok = "add_tokens tok [highlight_token db, separation_token db]"
  from assms obtain ds where ds: "preprocess db ?tok (from_pandas train_df) = Inr ds"
    by (auto simp add: main_def Let_def split: if_splits sum.splits)
  with assms have "files = AList.update (valid_file_path db)
        (set_format [''source_ids'', ''target_ids'', ''attention_mask''] ds)
        (AList.update (train_file_path db)
          (set_format [''source_ids'', ''target_ids'', ''attention_mask''] ds) [])"
    by (auto simp add: main_def Let_def split: if_splits)
  then have "map_of files (valid_file_path db) =
                Some (set_format [''source_ids'', ''target_ids'', ''attention_mask''] ds)"
    by (simp add: update_conv')
  with ds show ?thesis by blast
qed

text \<open>
  Claim C1. The validation file should hold the encoding of the validation rows. With a
  training file of one row \<open>(a, b)\<close> and a validation file of one row \<open>(c, d)\<close>, the
  dataset \<open>main\<close> saves at \<open>data/valid.pt\<close> is the encoding of \<open>(a, b)\<close>, equal to
  the one saved at \<open>data/train.pt\<close>; the encoding of the validation rows, the second
  conjunct, is a different dataset and is saved nowhere.
\<close>

theorem main_valid_file_holds_train_rows:
  "main (DEFAULT_ARGS\<lparr>source_max_length := 4, target_max_length := 3\<rparr>)
     \<lparr>columns = [''source_text'', ''target_text''], cells = [[''a'', ''b'']]\<rparr>
     \<lparr>columns = [''source_text'', ''target_text''], cells = [[''c'', ''d'']]\<rparr>
     char_tokenizer =
     Inr [(''data/train.pt'',
           \<lparr> source_ids = [[97, 32, 60, 47]], target_ids = [[98, 32, 60]],
             attention_mask = [[1, 1, 1, 1]],
             text_rows = [[(''source_text'', ''a </s>''), (''target_text'', ''b </s>'')]],
             format_columns = Some [''source_ids'', ''target_ids'', ''attention_mask''] \<rparr>),
          (''data/valid.pt'',
           \<lparr> source_ids = [[97, 32, 60, 47]], target_ids = [[98, 32, 60]],
             attention_mask = [[1, 1, 1, 1]],
             text_rows = [[(''source_text'', ''a </s>''), (''target_text'', ''b </s>'')]],
             format_columns = Some [''source_ids'', ''target_ids'', ''attention_mask''] \<rparr>)] \<and>
   preprocess (DEFAULT_ARGS\<lparr>source_max_length := 4, target_max_length := 3\<rparr>)
     (add_tokens char_tokenizer [''<hl>'', ''<sep>''])
     (from_pandas \<lparr>columns = [''source_text'', ''target_text''], cells = [[''c'', ''d'']]\<rparr>) =
     Inr \<lparr> source_ids = [[99, 32, 60, 47]], target_ids = [[100, 32, 60]],
           attention_mask = [[1, 1, 1, 1]],
           text_rows = [[(''source_text'', ''c </s>''), (''target_text'', ''d </s>'')]],
           format_columns = None \<rparr>"
  by code_simp

section \<open>The training step\<close>

lemmas example_defs = example_batch_def example_world_def example_trainer_def example_model_def
  training_step_def prepare_inputs_def send_to_device_def adjust_loss_def backward_pass_def
  mean_def Let_def

lemma update_middle:
  "k \<notin> fst ` set ps \<Longrightarrow> AList.update k v (ps @ (k, u) # qs) = ps @ (k, v) # qs"
  by (induction ps) auto

lemma to_device_not_tensor: "\<not> is_tensor v \<Longrightarrow> to_device v dev = v"
  by (cases v) simp_all

lemma send_fold:
  assumes "distinct (map fst (pre @ xs))"
  shows "fold (\<lambda>(k, v) d. if is_tensor v then AList.update k (to_device v dev) d else d) xs
           (map (\<lambda>(k, v). (k, to_device v dev)) pre @ xs) =
         map (\<lambda>(k, v). (k, to_device v dev)) (pre @ xs)"
  using assms
proof (induction xs arbitrary: pre)
  case Nil
  show ?case by simp
next
  case (Cons x xs)
  obtain k v where x: "x = (k, v)" by (cases x)
  let ?g = "\<lambda>(k, v). (k, to_device v dev)"
  from Cons.prems x have nk: "k \<notin> fst ` set (map ?g pre)"
    by (auto simp add: image_iff)
  have step: "(if is_tensor v then AList.update k (to_device v dev) (map ?g pre @ (k, v) # xs)
               else map ?g pre @ (k, v) # xs) = map ?g (pre @ [(k, v)]) @ xs"
    using update_middle [OF nk] by (simp add: to_device_not_tensor)
  from Cons.prems x have "distinct (map fst ((pre @ [(k, v)]) @ xs))" by simp
  then have "fold (\<lambda>(k, v) d. if is_tensor v then AList.update k (to_device v dev) d else d) xs
           (map ?g (pre @ [(k, v)]) @ xs) = map ?g ((pre @ [(k, v)]) @ xs)"
    by (rule Cons.IH)
  with step x show ?case by simp
qed

lemma send_to_device_map:
  assumes "distinct (map fst ins)"
  shows "send_to_device dev ins = map (\<lambda>(k, v). (k, to_device v dev)) ins"
  using send_fold [of "[]" ins dev] assms by (simp add: send_to_device_def)

lemma backward_Inr:
  assumes "backward l v = Inr v'"
  shows "v' = v\<lparr>backward_calls := backward_calls v @ [l]\<rparr>"
proof (cases l)
  case (Loss x xs)
  with assms show ?thesis by (cases xs) simp_all
qed

lemma backward_pass_Inr:
  assumes "backward_pass self l w = Inr w'"
  shows "w' = w\<lparr>backward_calls := backward_calls w @
                  [if fp16 (args self) then scale_loss l (loss_scale w) else l]\<rparr>"
proof (cases "fp16 (args self)")
  case True
  with assms have "backward (scale_loss l (loss_scale w)) w = Inr w'"
    by (simp add: backward_pass_def split: if_splits)
  then have "w' = w\<lparr>backward_calls := backward_calls w @ [scale_loss l (loss_scale w)]\<rparr>"
    by (rule backward_Inr)
  with True show ?thesis by simp
next
  case False
  with assms have "backward l w = Inr w'"
    by (simp add: backward_pass_def)
  then have "w' = w\<lparr>backward_calls := backward_calls w @ [l]\<rparr>"
    by (rule backward_Inr)
  with False show ?thesis by simp
qed

lemma training_step_world:
  "\<exists>r calls. training_step self model w =
     (r, w\<lparr>training := True, batch := prepare_inputs self model (batch w),
           backward_calls := calls\<rparr>)"
proof -
  define w2 where "w2 = w\<lparr>training := True, batch := prepare_inputs self model (batch w)\<rparr>"
  have same: "w2 = w\<lparr>training := True, batch := prepare_inputs self model (batch w),
                     backward_calls := backward_calls w\<rparr>"
    by (simp add: w2_def)
  have ts: "training_step self model w =
     (case forward model (batch w2) of
           Inl e \<Rightarrow> (Inl e, w2)
         | Inr [] \<Rightarrow> (Inl IndexError, w2)
         | Inr (loss0 # rest) \<Rightarrow>
             (case backward_pass self (adjust_loss self loss0) w2 of
                   Inl e \<Rightarrow> (Inl e, w2)
                 | Inr w3 \<Rightarrow>
                     (case item (adjust_loss self loss0) of
                        Inl e \<Rightarrow> (Inl e, w3)
                      | Inr x \<Rightarrow> (Inr x, w3))))"
    by (simp add: training_step_def Let_def w2_def split: sum.split list.split)
  have w3: "w3 = w\<lparr>training := True, batch := prepare_inputs self model (batch w),
                     backward_calls := backward_calls w @
                       [if fp16 (args self) then scale_loss l (loss_scale w) else l]\<rparr>"
    if "backward_pass self l w2 = Inr w3" for l w3
    using backward_pass_Inr [OF that] by (simp add: w2_def)
  show ?thesis
  proof (cases "forward model (batch w2)")
    case (Inl e)
    with ts same show ?thesis by (metis sum.simps(5))
  next
    case (Inr outs)
    show ?thesis
    proof (cases outs)
      case Nil
      with ts Inr have "training_step self model w = (Inl IndexError, w2)" by simp
      with same show ?thesis by metis
    next
      case (Cons loss0 rest)
      show ?thesis
      proof (cases "backward_pass self (adjust_loss self loss0) w2")
        case (Inl e)
        with ts Inr Cons have "training_step self model w = (Inl e, w2)" by simp
        with same show ?thesis by metis
      next
        case r: (Inr w3)
        from w3 [OF r] obtain calls where
          c: "w3 = w\<lparr>training := True, batch := prepare_inputs self model (batch w),
                     backward_calls := calls\<rparr>" by (rule that)
        from ts Inr Cons r have "\<exists>r. training_step self model w = (r, w3)"
          by (cases "item (adjust_loss self loss0)") simp_all
        with c show ?thesis by blast
      qed
    qed
  qed
qed


lemma training_step_batch: "batch (snd (training_step self model w)) = prepare_inputs self model (batch w)"
proof -
  obtain r calls where "training_step self model w =
     (r, w\<lparr>training := True, batch := prepare_inputs self model (batch w),
           backward_calls := calls\<rparr>)"
    using training_step_world by blast
  then show ?thesis by simp
qed

text \<open>
  Claim C10. After the training step (whether it returned or raised in or after the
  forward pass), the caller's batch dict holds, under the same keys and in the same
  order, every tensor moved to the configured device and every other value unchanged;
  when the model is wrapped in \<open>nn.DataParallel\<close> it also holds \<open>return_tuple = True\<close>
  (appended, or assigned when the key was there).
\<close>

theorem training_step_mutates_batch:
  assumes "distinct (map fst (batch w))"
  shows "batch (snd (training_step self model w)) =
           (let moved = map (\<lambda>(k, v). (k, to_device v (device (args self)))) (batch w)
            in if data_parallel model
               then AList.update ''return_tuple'' (PyBool True) moved else moved) \<and>
         (data_parallel model \<longrightarrow>
            map_of (batch (snd (training_step self model w))) ''return_tuple'' = Some (PyBool True)) \<and>
         (\<forall>k d xs. map_of (batch w) k = Some (Tensor d xs) \<and>
                  (data_parallel model \<longrightarrow> k \<noteq> ''return_tuple'') \<longrightarrow>
            map_of (batch (snd (training_step self model w))) k =
              Some (Tensor (device (args self)) xs)) \<and>
         (\<forall>k v. map_of (batch w) k = Some v \<and> \<not> is_tensor v \<and>
                  (data_parallel model \<longrightarrow> k \<noteq> ''return_tuple'') \<longrightarrow>
            map_of (batch (snd (training_step self model w))) k = Some v)"
proof -
  let ?dev = "device (args self)"
  let ?moved = "map (\<lambda>(k, v). (k, to_device v ?dev)) (batch w)"
  let ?b = "batch (snd (training_step self model w))"
  have b: "?b = (if data_parallel model
               then AList.update ''return_tuple'' (PyBool True) ?moved else ?moved)"
    using assms by (simp add: training_step_batch prepare_inputs_def send_to_device_map)
  have m: "map_of ?moved k = map_option (\<lambda>v. to_device v ?dev) (map_of (batch w) k)" for k
    by (simp add: map_of_map)
  have look: "map_of ?b k = (if data_parallel model \<and> k = ''return_tuple'' then Some (PyBool True)
                             else map_option (\<lambda>v. to_device v ?dev) (map_of (batch w) k))" for k
    unfolding b by (simp add: update_conv' m)
  have "data_parallel model \<longrightarrow> map_of ?b ''return_tuple'' = Some (PyBool True)"
    by (simp add: look)
  moreover have "\<forall>k d xs. map_of (batch w) k = Some (Tensor d xs) \<and>
                  (data_parallel model \<longrightarrow> k \<noteq> ''return_tuple'') \<longrightarrow>
            map_of ?b k = Some (Tensor ?dev xs)"
    by (auto simp add: look)
  moreover have "\<forall>k v. map_of (batch w) k = Some v \<and> \<not> is_tensor v \<and>
                  (data_parallel model \<longrightarrow> k \<noteq> ''return_tuple'') \<longrightarrow>
            map_of ?b k = Some v"
    by (auto simp add: look to_device_not_tensor)
  ultimately show ?thesis
    using b by (simp add: Let_def)
qed

theorem training_step_mutates_batch_witness:
  "distinct (map fst (batch example_world)) \<and>
   batch (snd (training_step (example_trainer 2 1 False 0) (example_model True (Loss 1 [3]))
                 example_world)) =
     [(''input_ids'', Tensor ''cuda:0'' [5, 6]), (''labels'', Tensor ''cuda:0'' [7]),
      (''note'', PyStr ''x''), (''return_tuple'', PyBool True)]"
proof -
  have h: "distinct (map fst (batch example_world))"
    by (simp add: example_world_def example_batch_def)
  show ?thesis
    using training_step_mutates_batch [OF h, of "example_trainer 2 1 False 0"
        "example_model True (Loss 1 [3])"] h
    by (simp add: example_batch_def example_world_def example_trainer_def example_model_def Let_def)
qed

lemma item_Inr: "item l = Inr x \<longleftrightarrow> l = Loss x []"
  by (cases "l" rule: item.cases) auto

lemma training_step_Inr:
  assumes "training_step self model w = (Inr x, w')"
  shows "\<exists>loss0 rest.
           forward model (prepare_inputs self model (batch w)) = Inr (loss0 # rest) \<and>
           item (adjust_loss self loss0) = Inr x \<and>
           w' = w\<lparr>training := True, batch := prepare_inputs self model (batch w),
                   backward_calls := backward_calls w @
                     [if fp16 (args self)
                      then scale_loss (adjust_loss self loss0) (loss_scale w)
                      else adjust_loss self loss0]\<rparr>"
proof -
  define w2 where "w2 = w\<lparr>training := True, batch := prepare_inputs self model (batch w)\<rparr>"
  have ts: "training_step self model w =
     (case forward model (batch w2) of
           Inl e \<Rightarrow> (Inl e, w2)
         | Inr [] \<Rightarrow> (Inl IndexError, w2)
         | Inr (loss0 # rest) \<Rightarrow>
             (case backward_pass self (adjust_loss self loss0) w2 of
                   Inl e \<Rightarrow> (Inl e, w2)
                 | Inr w3 \<Rightarrow>
                     (case item (adjust_loss self loss0) of
                        Inl e \<Rightarrow> (Inl e, w3)
                      | Inr x \<Rightarrow> (Inr x, w3))))"
    by (simp add: training_step_def Let_def w2_def split: sum.split list.split)
  have bw2: "batch w2 = prepare_inputs self model (batch w)"
    by (simp add: w2_def)
  show ?thesis
  proof (cases "forward model (batch w2)")
    case (Inl e)
    with ts assms show ?thesis by simp
  next
    case (Inr outs)
    show ?thesis
    proof (cases outs)
      case Nil
      with ts Inr assms show ?thesis by simp
    next
      case (Cons loss0 rest)
      show ?thesis
      proof (cases "backward_pass self (adjust_loss self loss0) w2")
        case (Inl e)
        with ts Inr Cons assms show ?thesis by simp
      next
        case r: (Inr w3)
        have w3: "w3 = w\<lparr>training := True, batch := prepare_inputs self model (batch w),
                   backward_calls := backward_calls w @
                     [if fp16 (args self)
                      then scale_loss (adjust_loss self loss0) (loss_scale w)
                      else adjust_loss self loss0]\<rparr>"
          using backward_pass_Inr [OF r] by (simp add: w2_def)
        show ?thesis
        proof (cases "item (adjust_loss self loss0)")
          case (Inl e)
          with ts Inr Cons r assms show ?thesis by simp
        next
          case i: (Inr y)
          with ts Inr Cons r assms have "y = x" "w' = w3" by simp_all
          with i w3 Inr Cons bw2 show ?thesis by simp
        qed
      qed
    qed
  qed
qed

lemma adjust_loss_value:
  assumes "item (adjust_loss self loss0) = Inr x"
  shows "x = (let m = (if 1 < n_gpu (args self)
                       then sum_list (elements loss0) / real (length (elements loss0))
                       else hd (elements loss0))
              in if 1 < gradient_accumulation_steps (args self)
                 then m / real_of_int (gradient_accumulation_steps (args self)) else m)"
proof -
  obtain v vs where l: "loss0 = Loss v vs" by (cases loss0)
  show ?thesis
  proof (cases "1 < n_gpu (args self)")
    case True
    with assms l show ?thesis
      by (auto simp add: adjust_loss_def mean_def Let_def item_Inr split: if_splits)
  next
    case False
    with assms l show ?thesis
      by (auto simp add: adjust_loss_def Let_def item_Inr split: if_splits)
  qed
qed


text \<open>
  With fp16 on (apex installed, loss scale 128), one replica and no accumulation, a
  forward loss of 3 is returned as 3, and \<open>backward\<close> is called on the scaled loss 384,
  not on the adjusted loss 3.
\<close>

theorem training_step_fp16_backward_on_scaled_loss:
  "fst (training_step (example_trainer 1 1 True 0) (example_model False (Loss 3 [])) example_world) =
     Inr 3 \<and>
   adjust_loss (example_trainer 1 1 True 0) (Loss 3 []) = Loss 3 [] \<and>
   backward_calls (snd (training_step (example_trainer 1 1 True 0)
                          (example_model False (Loss 3 [])) example_world)) = [Loss 384 []] \<and>
   backward_calls (snd (training_step (example_trainer 1 1 True 0)
                          (example_model False (Loss 3 [])) example_world)) \<noteq>
     backward_calls example_world @ [adjust_loss (example_trainer 1 1 True 0) (Loss 3 [])]"
  by (simp add: example_defs)

text \<open>
  Claim C4, amended. When the step returns \<open>x\<close>, the forward pass on the prepared
  batch returned an output tuple with first element \<open>loss0\<close>; \<open>x\<close> is the value of the
  adjusted loss: the mean of \<open>loss0\<close> when \<open>n_gpu > 1\<close> (else \<open>loss0\<close> itself),
  divided by the accumulation step count when that exceeds 1. \<open>backward\<close> has been
  called exactly once more: on the adjusted loss when fp16 is off, on the adjusted loss
  times the loss scale of \<open>amp\<close> when fp16 is on. The optimizer has not stepped and the
  gradients have not been zeroed.
\<close>

theorem training_step_returns_adjusted_loss:
  assumes "training_step self model w = (Inr x, w')"
  shows "\<exists>loss0 rest.
           forward model (batch w') = Inr (loss0 # rest) \<and>
           item (adjust_loss self loss0) = Inr x \<and>
           x = (let m = (if 1 < n_gpu (args self)
                         then sum_list (elements loss0) / real (length (elements loss0))
                         else hd (elements loss0))
                in if 1 < gradient_accumulation_steps (args self)
                   then m / real_of_int (gradient_accumulation_steps (args self)) else m) \<and>
           backward_calls w' = backward_calls w @
             [if fp16 (args self) then scale_loss (adjust_loss self loss0) (loss_scale w)
              else adjust_loss self loss0] \<and>
           optimizer_steps w' = optimizer_steps w \<and>
           zero_grad_calls w' = zero_grad_calls w"
proof -
  from assms obtain loss0 rest where
    f: "forward model (prepare_inputs self model (batch w)) = Inr (loss0 # rest)" and
    i: "item (adjust_loss self loss0) = Inr x" and
    w': "w' = w\<lparr>training := True, batch := prepare_inputs self model (batch w),
                   backward_calls := backward_calls w @
                     [if fp16 (args self)
                      then scale_loss (adjust_loss self loss0) (loss_scale w)
                      else adjust_loss self loss0]\<rparr>"
    using training_step_Inr by blast
  have "forward model (batch w') = Inr (loss0 # rest)"
    using f by (simp add: w')
  moreover note i adjust_loss_value [OF i]
  moreover have "backward_calls w' = backward_calls w @
             [if fp16 (args self) then scale_loss (adjust_loss self loss0) (loss_scale w)
              else adjust_loss self loss0]"
    by (simp add: w')
  moreover have "optimizer_steps w' = optimizer_steps w" "zero_grad_calls w' = zero_grad_calls w"
    by (simp_all add: w')
  ultimately show ?thesis by blast
qed

theorem training_step_returns_adjusted_loss_witness:
  "training_step (example_trainer 2 4 False 0) (example_model True (Loss 1 [3])) example_world =
     (Inr (1 / 2),
      example_world\<lparr>training := True,
        batch := [(''input_ids'', Tensor ''cuda:0'' [5, 6]), (''labels'', Tensor ''cuda:0'' [7]),
                  (''note'', PyStr ''x''), (''return_tuple'', PyBool True)],
        backward_calls := [Loss (1 / 2) []]\<rparr>)"
proof -
  have e: "training_step (example_trainer 2 4 False 0) (example_model True (Loss 1 [3])) example_world =
     (Inr (1 / 2),
      example_world\<lparr>training := True,
        batch := [(''input_ids'', Tensor ''cuda:0'' [5, 6]), (''labels'', Tensor ''cuda:0'' [7]),
                  (''note'', PyStr ''x''), (''return_tuple'', PyBool True)],
        backward_calls := [Loss (1 / 2) []]\<rparr>)"
    by (simp add: example_defs)
  show ?thesis
    using training_step_returns_adjusted_loss [OF e] e by simp
qed

text \<open>The step never reads the label smoothing rate of the trainer.\<close>

lemma label_smoothing_unused:
  "training_step (self\<lparr>label_smoothing := r\<rparr>) model w = training_step self model w"
proof -
  have "prepare_inputs (self\<lparr>label_smoothing := r\<rparr>) model = prepare_inputs self model"
    by (simp add: prepare_inputs_def fun_eq_iff)
  moreover have "adjust_loss (self\<lparr>label_smoothing := r\<rparr>) = adjust_loss self"
    by (simp add: adjust_loss_def fun_eq_iff)
  moreover have "backward_pass (self\<lparr>label_smoothing := r\<rparr>) = backward_pass self"
    by (simp add: backward_pass_def fun_eq_iff)
  ultimately show ?thesis
    unfolding training_step_def by (simp only:)
qed

text \<open>
  Claim C2. The configured label smoothing rate should reach the loss computation. A
  trainer built with rate 0.1 and one built with rate 0 do the same step on the same
  batch: the forward pass gets the batch entries only, the loss 3 comes back as 3, and
  \<open>backward\<close> is called on the same loss.
\<close>

theorem training_step_drops_label_smoothing:
  "training_step (example_trainer 1 1 False (1 / 10)) (example_model False (Loss 3 [])) example_world =
     (Inr 3,
      example_world\<lparr>training := True,
        batch := [(''input_ids'', Tensor ''cuda:0'' [5, 6]), (''labels'', Tensor ''cuda:0'' [7]),
                  (''note'', PyStr ''x'')],
        backward_calls := [Loss 3 []]\<rparr>) \<and>
   training_step (example_trainer 1 1 False 0) (example_model False (Loss 3 [])) example_world =
     training_step (example_trainer 1 1 False (1 / 10)) (example_model False (Loss 3 [])) example_world"
  by (simp add: example_defs)

end
